theory Spec2Isabelle
  imports Main
begin

section \<open>JavaScript strings\<close>

text \<open>
  A JavaScript string is modelled as a \<^typ>\<open>string\<close>: the list of its code units, for
  code units below 256. The functions below are the \<open>String.prototype\<close> methods the
  program calls, restricted to that range.
\<close>

definition startsWith :: "string \<Rightarrow> string \<Rightarrow> bool" where
  "startsWith s p = (take (length p) s = p)"

definition endsWith :: "string \<Rightarrow> string \<Rightarrow> bool" where
  "endsWith s p = (length p \<le> length s \<and> drop (length s - length p) s = p)"

text \<open>\<open>s.includes(p)\<close>\<close>

fun includes_str :: "string \<Rightarrow> string \<Rightarrow> bool" where
  "includes_str [] p = (p = [])"
| "includes_str (c # cs) p = (startsWith (c # cs) p \<or> includes_str cs p)"

text \<open>
  White space and line terminators of ECMAScript below 256: TAB, LF, VT, FF, CR, SP and
  NBSP. \<open>trim\<close> strips them at both ends, \<open>trimEnd\<close> at the end.
\<close>

definition isWhiteSpace :: "char \<Rightarrow> bool" where
  "isWhiteSpace c = (c \<in> set [CHR 0x09, CHR 0x0A, CHR 0x0B, CHR 0x0C, CHR 0x0D, CHR 0x20, CHR 0xA0])"

definition isLineTerminator :: "char \<Rightarrow> bool" where
  "isLineTerminator c = (c = CHR 0x0A \<or> c = CHR 0x0D)"

definition isDigit :: "char \<Rightarrow> bool" where
  "isDigit c = (c \<in> set ''0123456789'')"

definition trimStart :: "string \<Rightarrow> string" where
  "trimStart s = dropWhile isWhiteSpace s"

definition trimEnd :: "string \<Rightarrow> string" where
  "trimEnd s = rev (dropWhile isWhiteSpace (rev s))"

definition trim :: "string \<Rightarrow> string" where
  "trim s = trimEnd (trimStart s)"

text \<open>\<open>s.split('\n')\<close>: never empty, the empty string gives one empty line.\<close>

fun splitLines :: "string \<Rightarrow> string list" where
  "splitLines [] = [[]]"
| "splitLines (c # cs) =
     (if c = CHR 0x0A then [] # splitLines cs
      else (case splitLines cs of [] \<Rightarrow> [[c]] | l # ls \<Rightarrow> (c # l) # ls))"

text \<open>\<open>xs.join(sep)\<close>.\<close>

fun join :: "string \<Rightarrow> string list \<Rightarrow> string" where
  "join sep [] = []"
| "join sep [x] = x"
| "join sep (x # y # ys) = x @ sep @ join sep (y # ys)"

text \<open>
  \<open>s.replace(p, '')\<close> with a string pattern \<open>p\<close>: the first occurrence of \<open>p\<close> is removed.
\<close>

fun removeFirst :: "string \<Rightarrow> string \<Rightarrow> string" where
  "removeFirst p [] = []"
| "removeFirst p (c # cs) =
     (if startsWith (c # cs) p then drop (length p) (c # cs) else c # removeFirst p cs)"

text \<open>The decimal numeral of a natural number, as a template literal prints it.\<close>

fun decimal :: "nat \<Rightarrow> string" where
  "decimal n = (if n < 10 then [''0123456789'' ! n]
                else decimal (n div 10) @ [''0123456789'' ! (n mod 10)])"

declare decimal.simps [simp del]

section \<open>Constants (lib/constants.js)\<close>

definition MARKERS_PROCESSED :: string where
  "MARKERS_PROCESSED = ''<!-- formatted-chat-session -->''"

text \<open>
  Each regular expression of the pattern tables is the predicate \<open>pattern.test\<close>.
  \<open>/^Read \[\]\(file:\/\/(.+?)\)/\<close> asks, after the fixed prefix, for at least one
  character and then a closing parenthesis, with no line terminator before it.
\<close>

definition fileLinkPattern :: "string \<Rightarrow> string \<Rightarrow> bool" where
  "fileLinkPattern verb line =
     (let prefix = verb @ '' [](file://'' in
      startsWith line prefix \<and>
      CHR '')'' \<in> set (drop 1 (takeWhile (\<lambda>c. \<not> isLineTerminator c) (drop (length prefix) line))))"

text \<open>\<open>/^Completed \(\d+\/\d+\)/\<close>\<close>

definition completedPattern :: "string \<Rightarrow> bool" where
  "completedPattern line =
     (let prefix = ''Completed ('';
          r1 = drop (length prefix) line;
          d1 = takeWhile isDigit r1;
          r2 = drop (length d1) r1;
          d2 = takeWhile isDigit (drop 1 r2);
          r3 = drop (length d2) (drop 1 r2)
      in startsWith line prefix \<and> d1 \<noteq> [] \<and> startsWith r2 ''/'' \<and> d2 \<noteq> [] \<and> startsWith r3 '')'')"

text \<open>\<open>/^Created \d+ todos/\<close>\<close>

definition createdTodosPattern :: "string \<Rightarrow> bool" where
  "createdTodosPattern line =
     (let prefix = ''Created '';
          r1 = drop (length prefix) line;
          d1 = takeWhile isDigit r1
      in startsWith line prefix \<and> d1 \<noteq> [] \<and> startsWith (drop (length d1) r1) '' todos'')"

definition ACTION_PATTERNS :: "(string \<Rightarrow> bool) list" where
  \<open>ACTION_PATTERNS =
     [fileLinkPattern ''Read'',
      fileLinkPattern ''Created'',
      (\<lambda>line. startsWith line ''Using "Replace String in File"''),
      (\<lambda>line. startsWith line ''Searched text for''),
      (\<lambda>line. startsWith line ''Updated todo list''),
      completedPattern,
      (\<lambda>line. startsWith line ''Made changes.''),
      (\<lambda>line. startsWith line ''Summarized conversation history''),
      createdTodosPattern]\<close>

definition NOISE_PATTERNS :: "(string \<Rightarrow> bool) list" where
  "NOISE_PATTERNS =
     [(\<lambda>s. s = ''Continue to iterate?''),
      (\<lambda>s. s = ''[object Object]'')]"

definition IGNORE_USER_PROMPTS :: "(string \<Rightarrow> bool) list" where
  "IGNORE_USER_PROMPTS =
     [(\<lambda>s. startsWith s ''@agent Continue:''),
      (\<lambda>s. startsWith s ''Continue:'')]"

text \<open>\<open>patterns.some(pattern => pattern.test(s))\<close>\<close>

definition some :: "(string \<Rightarrow> bool) list \<Rightarrow> string \<Rightarrow> bool" where
  "some patterns s = list_ex (\<lambda>pattern. pattern s) patterns"

section \<open>Sections\<close>

datatype section_type = Unknown | UserPrompt | AgentResponse | AgentAction

text \<open>
  A section object of \<open>parseContent\<close>. The property \<open>actions\<close> exists only on
  \<open>agent-action\<close> sections: \<open>None\<close> is the absent property.
\<close>

record section_obj =
  stype :: section_type
  content :: "string list"
  actions :: "string list option"
  raw :: string

text \<open>
  An element of the list \<open>mergeSections\<close> returns: a section pushed as it came, or the
  fused object \<open>{type: 'agent-response', content: fusedContent, actions: fusedActions}\<close>.
\<close>

datatype msection = Plain section_obj | Fused (fusedContent: "string list") (fusedActions: "section_obj list")

fun mtype :: "msection \<Rightarrow> section_type" where
  "mtype (Plain s) = stype s"
| "mtype (Fused c a) = AgentResponse"

section \<open>The Segmenter: parseContent (lib/parsers.js)\<close>

record pstate =
  sections :: "section_obj list"
  currentSection :: section_obj
  inCodeBlock :: bool
  inAction :: bool

text \<open>\<open>currentSection.content.push(line)\<close>\<close>

definition pushLine :: "string \<Rightarrow> pstate \<Rightarrow> pstate" where
  "pushLine line st =
     st\<lparr>currentSection := (currentSection st)\<lparr>content := content (currentSection st) @ [line]\<rparr>\<rparr>"

text \<open>
  \<open>currentSection.raw = currentSection.content.join('\n'); sections.push({...currentSection})\<close>
\<close>

definition pushSection :: "pstate \<Rightarrow> pstate" where
  "pushSection st =
     st\<lparr>sections := sections st @
           [(currentSection st)\<lparr>raw := join [CHR 0x0A] (content (currentSection st))\<rparr>]\<rparr>"

definition newSection :: "section_type \<Rightarrow> string list \<Rightarrow> string list option \<Rightarrow> section_obj" where
  "newSection t c a = \<lparr>stype = t, content = c, actions = a, raw = []\<rparr>"

text \<open>
  The part of the loop body below the two speaker tests (``Detect technical actions'').
  \<open>currentSection.actions.push(line)\<close> throws a TypeError on a section without the
  property \<open>actions\<close>: that is the result \<open>None\<close>.
\<close>

definition actionStep :: "pstate \<Rightarrow> string \<Rightarrow> pstate option" where
  "actionStep st line =
     (let isAction = some ACTION_PATTERNS line;
          st1 = (if isAction \<and> \<not> inAction st
                 then (if stype (currentSection st) = AgentResponse \<and> content (currentSection st) \<noteq> []
                       then pushSection st else st)
                      \<lparr>inAction := True, currentSection := newSection AgentAction [] (Some [])\<rparr>
                 else st)
      in if inAction st1 then
           (if isAction then
              (case actions (currentSection st1) of
                 None \<Rightarrow> None
               | Some acts \<Rightarrow> Some (st1\<lparr>currentSection := (currentSection st1)\<lparr>actions := Some (acts @ [line])\<rparr>\<rparr>))
            else if trim line = [] then Some st1
            else
              Some ((case actions (currentSection st1) of
                       Some acts \<Rightarrow>
                         (if acts \<noteq> [] then
                            (st1\<lparr>currentSection := (currentSection st1)\<lparr>content := acts, raw := join [CHR 0x0A] acts\<rparr>\<rparr>)
                              \<lparr>sections := sections st1 @
                                 [(currentSection st1)\<lparr>content := acts, raw := join [CHR 0x0A] acts\<rparr>]\<rparr>
                          else st1)
                     | None \<Rightarrow> st1)
                    \<lparr>currentSection := newSection AgentResponse [line] None, inAction := False\<rparr>))
         else Some (pushLine line st1))"

text \<open>One iteration of the loop over the lines.\<close>

definition parseLine :: "string \<Rightarrow> pstate \<Rightarrow> string \<Rightarrow> pstate option" where
  "parseLine userIdentifier st line =
     (if some NOISE_PATTERNS (trim line) then Some st
      else if startsWith line ''```'' then Some ((pushLine line st)\<lparr>inCodeBlock := \<not> inCodeBlock st\<rparr>)
      else if inCodeBlock st then Some (pushLine line st)
      else if startsWith line (userIdentifier @ '':'') then
        (let promptContent = trim (removeFirst (userIdentifier @ '':'') line) in
         if some IGNORE_USER_PROMPTS promptContent then Some st
         else Some ((if content (currentSection st) \<noteq> [] then pushSection st else st)
                    \<lparr>currentSection := newSection UserPrompt [promptContent] None, inAction := False\<rparr>))
      else if startsWith line ''GitHub Copilot:'' then
        Some ((if content (currentSection st) \<noteq> [] then pushSection st else st)
              \<lparr>currentSection := newSection AgentResponse [trim (removeFirst ''GitHub Copilot:'' line)] None,
                inAction := False\<rparr>)
      else actionStep st line)"

fun parseLines :: "string \<Rightarrow> pstate \<Rightarrow> string list \<Rightarrow> pstate option" where
  "parseLines userIdentifier st [] = Some st"
| "parseLines userIdentifier st (line # lines) =
     (case parseLine userIdentifier st line of
        None \<Rightarrow> None
      | Some st' \<Rightarrow> parseLines userIdentifier st' lines)"

definition initialState :: pstate where
  "initialState = \<lparr>sections = [], currentSection = newSection Unknown [] None,
                   inCodeBlock = False, inAction = False\<rparr>"

text \<open>``Add last section''\<close>

definition lastSection :: "pstate \<Rightarrow> section_obj list" where
  "lastSection st = sections (if content (currentSection st) \<noteq> [] then pushSection st else st)"

definition parseContent :: "string \<Rightarrow> string \<Rightarrow> section_obj list option" where
  "parseContent text userIdentifier =
     map_option lastSection (parseLines userIdentifier initialState (splitLines text))"

section \<open>The Merger (lib/parsers.js)\<close>

definition placeholder :: "nat \<Rightarrow> string" where
  "placeholder n = ''__ACTION_PLACEHOLDER_'' @ decimal n @ ''__''"

record mstate =
  currentPrompt :: "section_obj option"
  agentContent :: "string list"
  agentActions :: "section_obj list"

text \<open>
  The \<open>while\<close> loop of \<open>flushAgentContent\<close>: the first two arguments are what is left of
  \<open>state.agentContent\<close> and \<open>state.agentActions\<close> from \<open>contentIndex\<close> and \<open>actionIndex\<close>
  on, the last two are \<open>fusedContent\<close> and \<open>fusedActions\<close>.
\<close>

fun interleave :: "string list \<Rightarrow> section_obj list \<Rightarrow> string list \<Rightarrow> section_obj list
    \<Rightarrow> string list \<times> section_obj list" where
  "interleave [] [] fc fa = (fc, fa)"
| "interleave (c # cs) [] fc fa = interleave cs [] (fc @ [c]) fa"
| "interleave [] (a # as) fc fa = interleave [] as (fc @ [placeholder (length fa)]) (fa @ [a])"
| "interleave (c # cs) (a # as) fc fa =
     interleave cs as (fc @ [c] @ [placeholder (length fa)]) (fa @ [a])"

definition flushAgentContent :: "msection list \<times> mstate \<Rightarrow> msection list \<times> mstate" where
  "flushAgentContent ms =
     (let merged = fst ms; state = snd ms in
      if agentContent state = [] \<and> agentActions state = [] then (merged, state)
      else (let (fc, fa) = interleave (agentContent state) (agentActions state) [] [] in
            (merged @ [Fused fc fa], state\<lparr>agentContent := [], agentActions := []\<rparr>)))"

definition mergeStep :: "msection list \<times> mstate \<Rightarrow> section_obj \<Rightarrow> msection list \<times> mstate" where
  "mergeStep ms s =
     (if stype s = UserPrompt then
        (let (merged, state) = flushAgentContent ms in
         (merged @ [Plain s], state\<lparr>currentPrompt := Some s\<rparr>))
      else if stype s = AgentResponse then
        (fst ms, (snd ms)\<lparr>agentContent := agentContent (snd ms) @ [join [CHR 0x0A] (content s)]\<rparr>)
      else if stype s = AgentAction then
        (fst ms, (snd ms)\<lparr>agentActions := agentActions (snd ms) @ [s]\<rparr>)
      else ms)"

definition mergeSections :: "section_obj list \<Rightarrow> msection list" where
  "mergeSections secs =
     fst (flushAgentContent
            (foldl mergeStep ([], \<lparr>currentPrompt = None, agentContent = [], agentActions = []\<rparr>) secs))"

section \<open>The legacy Merger (the monolithic format-chat-session.js)\<close>

text \<open>The \<open>for\<close> loop over the collected \<open>agentContent\<close> of one turn.\<close>

definition fuseStep :: "string list \<times> section_obj list \<Rightarrow> section_obj \<Rightarrow> string list \<times> section_obj list" where
  "fuseStep acc item =
     (if stype item = AgentResponse then (fst acc @ [join [CHR 0x0A] (content item)], snd acc)
      else if stype item = AgentAction then (fst acc @ [placeholder (length (snd acc))], snd acc @ [item])
      else acc)"

definition fuse :: "section_obj list \<Rightarrow> msection" where
  "fuse items = (let (fc, fa) = foldl fuseStep ([], []) items in Fused fc fa)"

function mergeSections_legacy :: "section_obj list \<Rightarrow> msection list" where
  "mergeSections_legacy [] = []"
| "mergeSections_legacy (s # rest) =
     (if stype s = UserPrompt then
        (let agentContent = takeWhile (\<lambda>x. stype x \<noteq> UserPrompt) rest in
         Plain s # (if agentContent \<noteq> [] then [fuse agentContent] else [])
           @ mergeSections_legacy (dropWhile (\<lambda>x. stype x \<noteq> UserPrompt) rest))
      else Plain s # mergeSections_legacy rest)"
  by pat_completeness auto
termination
  by (relation "measure length") (auto simp: length_dropWhile_le less_Suc_eq_le)

section \<open>The text transforms (lib/transformers.js)\<close>

record line_context =
  ctx_inCodeBlock :: bool
  ctx_index :: nat
  ctx_prevLine :: string
  ctx_nextLine :: string
  ctx_trimmedLine :: string
  ctx_prevTrimmed :: string
  ctx_nextTrimmed :: string

type_synonym transformer = "string \<Rightarrow> line_context \<Rightarrow> string"

text \<open>
  The \<open>lines.map\<close> of \<open>transformLines\<close>, from line \<open>index\<close> on: \<open>inCode\<close> is the closure
  variable \<open>inCodeBlock\<close> before the line, \<open>prevLine\<close> is \<open>lines[index - 1]\<close> (\<open>''\<close> at
  index 0).
\<close>

fun mapLines :: "transformer list \<Rightarrow> bool \<Rightarrow> nat \<Rightarrow> string \<Rightarrow> string list \<Rightarrow> string list" where
  "mapLines transformers inCode index prevLine [] = []"
| "mapLines transformers inCode index prevLine (line # rest) =
     (let trimmedLine = trim line;
          nextLine = (case rest of [] \<Rightarrow> [] | n # _ \<Rightarrow> n);
          inCode' = (if startsWith trimmedLine ''```'' then \<not> inCode else inCode);
          context = \<lparr>ctx_inCodeBlock = inCode', ctx_index = index, ctx_prevLine = prevLine,
                      ctx_nextLine = nextLine, ctx_trimmedLine = trimmedLine,
                      ctx_prevTrimmed = trim prevLine, ctx_nextTrimmed = trim nextLine\<rparr>
      in foldl (\<lambda>acc fn. fn acc context) line transformers
           # mapLines transformers inCode' (Suc index) line rest)"

definition transformLines :: "string \<Rightarrow> transformer list \<Rightarrow> string" where
  "transformLines text transformers =
     join [CHR 0x0A] (mapLines transformers False 0 [] (splitLines text))"

text \<open>\<open>/^\d+\. /\<close>\<close>

definition orderedItemPattern :: "string \<Rightarrow> bool" where
  "orderedItemPattern s =
     (let d = takeWhile isDigit s in d \<noteq> [] \<and> startsWith (drop (length d) s) ''. '')"

text \<open>
  \<open>trimmedLine.match(/^(#{1,6})\s+(.*)$/)\<close>: the number of hashes and the heading text, or
  \<open>None\<close> for no match. The text may hold no line terminator, which \<open>.\<close> does not match.
\<close>

definition headingMatch :: "string \<Rightarrow> (nat \<times> string) option" where
  "headingMatch s =
     (let hashes = takeWhile (\<lambda>c. c = CHR ''#'') s;
          rest = drop (length hashes) s;
          spaces = takeWhile isWhiteSpace rest;
          headingText = drop (length spaces) rest
      in if 1 \<le> length hashes \<and> length hashes \<le> 6 \<and> spaces \<noteq> []
            \<and> \<not> list_ex isLineTerminator headingText
         then Some (length hashes, headingText) else None)"

definition shiftHeadingLevel :: transformer where
  "shiftHeadingLevel line context =
     (if ctx_inCodeBlock context then line
      else (case headingMatch (ctx_trimmedLine context) of
              Some (currentLevel, headingText) \<Rightarrow>
                replicate (min (currentLevel + 1) 6) (CHR ''#'') @ '' '' @ headingText
            | None \<Rightarrow> line))"

definition addLineBreak :: transformer where
  "addLineBreak line context =
     (let trimmedLine = ctx_trimmedLine context; nextTrimmed = ctx_nextTrimmed context in
      if ctx_inCodeBlock context then line
      else if trimmedLine = [] \<or> startsWith line ''#'' \<or> startsWith line ''- ''
              \<or> startsWith line ''* '' \<or> orderedItemPattern line \<or> CHR ''|'' \<in> set line
              \<or> startsWith trimmedLine ''<!--'' \<or> startsWith line ''   ''
              \<or> startsWith line [CHR 0x09]
      then line
      else (let isNextLineEmpty = (nextTrimmed = []);
                isNextLineStructure =
                  (startsWith nextTrimmed ''#'' \<or> startsWith nextTrimmed ''- ''
                   \<or> startsWith nextTrimmed ''* '' \<or> orderedItemPattern nextTrimmed
                   \<or> CHR ''|'' \<in> set nextTrimmed \<or> startsWith nextTrimmed ''```''
                   \<or> startsWith nextTrimmed ''   '' \<or> startsWith nextTrimmed [CHR 0x09])
            in if \<not> isNextLineEmpty \<and> \<not> isNextLineStructure then line @ ''  '' else line))"

definition removeTrailingSpace :: transformer where
  "removeTrailingSpace line context =
     (if \<not> endsWith line '' '' then line
      else if endsWith line '' '' \<and> \<not> endsWith line ''  '' then trimEnd line
      else if endsWith line ''  '' \<and> ctx_nextTrimmed context = [] then trimEnd line
      else line)"

definition shiftHeadingLevels :: "string \<Rightarrow> string" where
  "shiftHeadingLevels text = transformLines text [shiftHeadingLevel]"

definition forceLineBreaks :: "string \<Rightarrow> string" where
  "forceLineBreaks text = transformLines text [addLineBreak]"

definition removeTrailingSpaces :: "string \<Rightarrow> string" where
  "removeTrailingSpaces text = transformLines text [removeTrailingSpace]"

text \<open>
  \<open>text.replace(/\n{3,}/g, '\n\n')\<close>: scanning from the left, a maximal run of three or
  more line feeds is replaced by two of them, any other character is copied.
\<close>

function cleanExcessiveLineBreaks :: "string \<Rightarrow> string" where
  "cleanExcessiveLineBreaks text =
     (let run = takeWhile (\<lambda>c. c = CHR 0x0A) text in
      if 3 \<le> length run then [CHR 0x0A, CHR 0x0A] @ cleanExcessiveLineBreaks (drop (length run) text)
      else (case text of [] \<Rightarrow> [] | c # cs \<Rightarrow> c # cleanExcessiveLineBreaks cs))"
  by pat_completeness auto
termination
proof (relation "measure length")
  fix t :: string and run
  assume run: "run = takeWhile (\<lambda>c. c = CHR 0x0A) t" and "3 \<le> length run"
  moreover have "length run \<le> length t"
    unfolding run by (rule length_takeWhile_le)
  ultimately show "(drop (length run) t, t) \<in> measure length"
    by simp
qed auto

declare cleanExcessiveLineBreaks.simps [simp del]

text \<open>\<open>/^#{1,6}\s/\<close>, \<open>/^[-*]\s/\<close> and \<open>/^\d+\.\s/\<close>\<close>

definition headingPattern :: "string \<Rightarrow> bool" where
  "headingPattern s =
     (let hashes = takeWhile (\<lambda>c. c = CHR ''#'') s in
      1 \<le> length hashes \<and> length hashes \<le> 6 \<and> list_ex isWhiteSpace (take 1 (drop (length hashes) s)))"

definition bulletPattern :: "string \<Rightarrow> bool" where
  "bulletPattern s =
     (list_ex (\<lambda>c. c = CHR ''-'' \<or> c = CHR ''*'') (take 1 s) \<and> list_ex isWhiteSpace (take 1 (drop 1 s)))"

definition numberedPattern :: "string \<Rightarrow> bool" where
  "numberedPattern s =
     (let d = takeWhile isDigit s; r = drop (length d) s in
      d \<noteq> [] \<and> startsWith r ''.'' \<and> list_ex isWhiteSpace (take 1 (drop 1 r)))"

text \<open>
  The loop of \<open>ensureMarkdownSpacing\<close> from line \<open>i\<close> on; \<open>prevLine\<close> is \<open>lines[i - 1]\<close>
  (\<open>''\<close> at index 0). The result is the list \<open>result\<close> of pushed lines.
\<close>

fun spacingLoop :: "string \<Rightarrow> string list \<Rightarrow> string list" where
  "spacingLoop prevLine [] = []"
| "spacingLoop prevLine (line # rest) =
     (let trimmedLine = trim line;
          prevTrimmed = trim prevLine;
          isHeading = headingPattern trimmedLine;
          isListItem = (bulletPattern trimmedLine \<or> numberedPattern trimmedLine);
          prevIsListItem = (bulletPattern prevTrimmed \<or> numberedPattern prevTrimmed);
          isListStart = (isListItem \<and> \<not> prevIsListItem \<and> prevTrimmed \<noteq> []);
          isCodeBlockMarker = startsWith trimmedLine ''```'';
          prevIsCodeBlockMarker = startsWith prevTrimmed ''```'';
          needsDoubleLineBreak =
            ((isHeading \<or> isListStart \<or> isCodeBlockMarker) \<and> prevTrimmed \<noteq> []
             \<and> \<not> startsWith prevTrimmed ''---'' \<and> \<not> startsWith prevTrimmed ''<!--''
             \<and> \<not> prevIsCodeBlockMarker);
          nextLine = (case rest of [] \<Rightarrow> [] | n # _ \<Rightarrow> n)
      in (if needsDoubleLineBreak then [[]] else [])
         @ [line]
         @ (if isHeading \<and> trim nextLine \<noteq> [] then [[]] else [])
         @ spacingLoop line rest)"

definition ensureMarkdownSpacing :: "string \<Rightarrow> string" where
  "ensureMarkdownSpacing text = join [CHR 0x0A] (spacingLoop [] (splitLines text))"

section \<open>Fenced regions\<close>

text \<open>
  A fence marker is a line whose first characters after leading white space are three
  backticks, as \<open>transformLines\<close> reads it. \<open>insideFence\<close> marks the lines that lie after
  an odd number of markers and are no marker themselves: the lines strictly inside a
  fenced block (closed or still open at the end of the text).
\<close>

definition isFenceMarker :: "string \<Rightarrow> bool" where
  "isFenceMarker line = startsWith (trim line) ''```''"

fun insideFence :: "bool \<Rightarrow> string list \<Rightarrow> bool list" where
  "insideFence inside [] = []"
| "insideFence inside (line # rest) =
     (if isFenceMarker line then False # insideFence (\<not> inside) rest
      else inside # insideFence inside rest)"

text \<open>
  Two properties of a line transformer: it adds no line feed to a line that has none, and
  it returns the line as it is when the context says the line is in a code block.
\<close>

definition lineSafe :: "transformer \<Rightarrow> bool" where
  "lineSafe fn = (\<forall>line c. CHR 0x0A \<notin> set line \<longrightarrow> CHR 0x0A \<notin> set (ctx_trimmedLine c)
     \<longrightarrow> CHR 0x0A \<notin> set (fn line c))"

definition fenceAware :: "transformer \<Rightarrow> bool" where
  "fenceAware fn = (\<forall>line c. ctx_inCodeBlock c \<longrightarrow> fn line c = line)"

text \<open>The context object \<open>transformLines\<close> builds for line \<open>l\<close>.\<close>

definition lineContext :: "bool \<Rightarrow> nat \<Rightarrow> string \<Rightarrow> string \<Rightarrow> string list \<Rightarrow> line_context" where
  "lineContext b i p l ls =
     \<lparr>ctx_inCodeBlock = (if isFenceMarker l then \<not> b else b), ctx_index = i, ctx_prevLine = p,
      ctx_nextLine = (case ls of [] \<Rightarrow> [] | n # _ \<Rightarrow> n), ctx_trimmedLine = trim l,
      ctx_prevTrimmed = trim p, ctx_nextTrimmed = trim (case ls of [] \<Rightarrow> [] | n # _ \<Rightarrow> n)\<rparr>"

section \<open>Placeholders (specification side)\<close>

text \<open>
  A placeholder entry is a string of the form \<open>__ACTION_PLACEHOLDER_<digits>__\<close>.
\<close>

definition isPlaceholder :: "string \<Rightarrow> bool" where
  "isPlaceholder s =
     (let p = ''__ACTION_PLACEHOLDER_''; digits = takeWhile isDigit (drop (length p) s) in
      startsWith s p \<and> digits \<noteq> [] \<and> drop (length p + length digits) s = ''__'')"

text \<open>The number a decimal numeral stands for.\<close>

definition digitValue :: "char \<Rightarrow> nat" where
  "digitValue c = length (takeWhile (\<lambda>d. d \<noteq> c) ''0123456789'')"

definition decimalValue :: "string \<Rightarrow> nat" where
  "decimalValue s = foldl (\<lambda>a c. 10 * a + digitValue c) 0 s"

text \<open>
  Placeholder density of one merged element: the placeholder entries of a fused body are
  \<open>placeholder 0\<close>, ..., \<open>placeholder (n - 1)\<close> in this order, \<open>n\<close> the number of actions.
\<close>

fun dense :: "msection \<Rightarrow> bool" where
  "dense (Plain s) = True"
| "dense (Fused body acts) = (filter isPlaceholder body = map placeholder [0..<length acts])"

text \<open>The joined text of an \<open>agent-response\<close> section is no placeholder entry.\<close>

definition plainText :: "section_obj \<Rightarrow> bool" where
  "plainText s = (stype s = AgentResponse \<longrightarrow> \<not> isPlaceholder (join [CHR 0x0A] (content s)))"

text \<open>The invariants of the two merger loops used for placeholder density.\<close>

definition mergeInv :: "msection list \<times> mstate \<Rightarrow> bool" where
  "mergeInv ms = ((\<forall>m \<in> set (fst ms). dense m) \<and> (\<forall>c \<in> set (agentContent (snd ms)). \<not> isPlaceholder c))"

definition fuseInv :: "string list \<times> section_obj list \<Rightarrow> bool" where
  "fuseInv acc = (filter isPlaceholder (fst acc) = map placeholder [0..<length (snd acc)])"

section \<open>User turns (specification side)\<close>

text \<open>
  A user-turn opener read off the line alone: a line that begins with the user prefix, whose
  payload matches no ignore pattern, and that is no noise line.
\<close>

definition isUserOpener :: "string \<Rightarrow> string \<Rightarrow> bool" where
  "isUserOpener userIdentifier line =
     (startsWith line (userIdentifier @ '':'')
      \<and> \<not> some IGNORE_USER_PROMPTS (trim (removeFirst (userIdentifier @ '':'') line))
      \<and> \<not> some NOISE_PATTERNS (trim line))"

definition countOpeners :: "string \<Rightarrow> string \<Rightarrow> nat" where
  "countOpeners userIdentifier t = length (filter (isUserOpener userIdentifier) (splitLines t))"

definition userPrompts :: "section_obj list \<Rightarrow> nat" where
  "userPrompts secs = length (filter (\<lambda>s. stype s = UserPrompt) secs)"

definition mergedUserPrompts :: "msection list \<Rightarrow> nat" where
  "mergedUserPrompts ms = length (filter (\<lambda>m. mtype m = UserPrompt) ms)"

text \<open>
  The openers outside code fences. A fence line is, as the Segmenter reads it, a line that
  begins with three backticks and is no noise line.
\<close>

fun openersOutsideFences :: "string \<Rightarrow> bool \<Rightarrow> string list \<Rightarrow> nat" where
  "openersOutsideFences uid inFence [] = 0"
| "openersOutsideFences uid inFence (line # rest) =
     (if some NOISE_PATTERNS (trim line) then openersOutsideFences uid inFence rest
      else if startsWith line ''```'' then openersOutsideFences uid (\<not> inFence) rest
      else if inFence then openersOutsideFences uid inFence rest
      else (if isUserOpener uid line then 1 else 0) + openersOutsideFences uid inFence rest)"

text \<open>
  Whether a tool-action line arrives outside a fence while a user prompt is the open
  segment (\<open>promptOpen\<close>): the open prompt ends at the next agent opener.
\<close>

fun actionAfterPrompt :: "string \<Rightarrow> bool \<Rightarrow> bool \<Rightarrow> string list \<Rightarrow> bool" where
  "actionAfterPrompt uid inFence promptOpen [] = False"
| "actionAfterPrompt uid inFence promptOpen (line # rest) =
     (if some NOISE_PATTERNS (trim line) then actionAfterPrompt uid inFence promptOpen rest
      else if startsWith line ''```'' then actionAfterPrompt uid (\<not> inFence) promptOpen rest
      else if inFence then actionAfterPrompt uid inFence promptOpen rest
      else if startsWith line (uid @ '':'') then
        actionAfterPrompt uid inFence (promptOpen \<or> isUserOpener uid line) rest
      else if startsWith line ''GitHub Copilot:'' then actionAfterPrompt uid inFence False rest
      else if some ACTION_PATTERNS line then promptOpen \<or> actionAfterPrompt uid inFence False rest
      else actionAfterPrompt uid inFence promptOpen rest)"

text \<open>
  What the count argument observes of a Segmenter state: the fence flag, whether the open
  segment is a user prompt, and the user prompts emitted or open.
\<close>

definition promptOpen :: "pstate \<Rightarrow> bool" where
  "promptOpen st = (stype (currentSection st) = UserPrompt)"

definition promptsSoFar :: "pstate \<Rightarrow> nat" where
  "promptsSoFar st = userPrompts (sections st) + (if promptOpen st then 1 else 0)"

text \<open>
  Well-formed Segmenter states: in the action state the open segment is an
  \<open>agent-action\<close> section with its \<open>actions\<close> array, and an open user prompt is never empty.
\<close>

definition wellFormed :: "pstate \<Rightarrow> bool" where
  "wellFormed st =
     ((inAction st \<longrightarrow> stype (currentSection st) = AgentAction \<and> actions (currentSection st) \<noteq> None)
      \<and> (stype (currentSection st) = UserPrompt \<longrightarrow> content (currentSection st) \<noteq> []))"

section \<open>The main function: processContent (format-chat-session.js)\<close>

text \<open>\<open>isAlreadyProcessed\<close>\<close>

definition isAlreadyProcessed :: "string \<Rightarrow> bool" where
  "isAlreadyProcessed doc = includes_str doc MARKERS_PROCESSED"

text \<open>The text after the first occurrence of \<open>p\<close> in \<open>s\<close>, if there is one.\<close>

fun afterFirst :: "string \<Rightarrow> string \<Rightarrow> string option" where
  "afterFirst p [] = (if p = [] then Some [] else None)"
| "afterFirst p (c # cs) =
     (if startsWith (c # cs) p then Some (drop (length p) (c # cs)) else afterFirst p cs)"

text \<open>
  \<open>content.replace(/^---[\s\S]*?---\n\n/, '')\<close>: the text must begin with three dashes;
  the lazy \<open>[\s\S]*?\<close> stops at the first \<open>---\<close> after them that two line feeds follow,
  and everything up to there is removed. Without such a place nothing is replaced.
\<close>

definition removeExistingFrontmatter :: "string \<Rightarrow> string" where
  "removeExistingFrontmatter doc =
     (if startsWith doc ''---'' then
        (case afterFirst ''---\<newline>\<newline>'' (drop 3 doc) of
           Some rest \<Rightarrow> rest
         | None \<Rightarrow> doc)
      else doc)"

text \<open>
  The value of \<open>content\<close> in \<open>processContent\<close> below the two tests of the processed
  marker: what \<open>extractProjectRoot\<close>, \<open>extractUserIdentifier\<close> and \<open>parseContent\<close> receive.
\<close>

definition coreInput :: "string \<Rightarrow> bool \<Rightarrow> string" where
  "coreInput doc force =
     (if isAlreadyProcessed doc \<and> force then removeExistingFrontmatter doc else doc)"

text \<open>\<open>s.split(sep)\<close> for a separator of one character.\<close>

fun splitOn :: "char \<Rightarrow> string \<Rightarrow> string list" where
  "splitOn sep [] = [[]]"
| "splitOn sep (c # cs) =
     (if c = sep then [] # splitOn sep cs
      else (case splitOn sep cs of [] \<Rightarrow> [[c]] | l # ls \<Rightarrow> (c # l) # ls))"

text \<open>
  The functions of the host that the program calls: \<open>decodeURIComponent\<close> (\<open>None\<close> when it
  throws a URIError), \<open>path.basename\<close>, the clock read by \<open>new Date().toISOString()\<close>, and
  the renderer \<open>formatSection\<close> of lib/formatters.js, on which no property below depends.
\<close>

record host =
  decodeURIComponent :: "string \<Rightarrow> string option"
  basename :: "string \<Rightarrow> string"
  toISOString :: string
  formatSection :: "msection \<Rightarrow> string option \<Rightarrow> string"

definition safeDecodeURI :: "host \<Rightarrow> string \<Rightarrow> string" where
  "safeDecodeURI h uri = (case decodeURIComponent h uri of Some s \<Rightarrow> s | None \<Rightarrow> uri)"

text \<open>
  \<open>content.match(/file:\/\/\/(.+?)[)#\s]/)\<close>: the capture after the leftmost \<open>file:///\<close>
  that is followed by at least one character other than a line terminator and then, with no
  line terminator in between, by \<open>)\<close>, \<open>#\<close> or white space.
\<close>

fun capturePath :: "string \<Rightarrow> string \<Rightarrow> string option" where
  "capturePath acc [] = None"
| "capturePath acc (d # ds) =
     (if d = CHR '')'' \<or> d = CHR ''#'' \<or> isWhiteSpace d then Some acc
      else if isLineTerminator d then None
      else capturePath (acc @ [d]) ds)"

fun matchFileUrl :: "string \<Rightarrow> string option" where
  "matchFileUrl [] = None"
| "matchFileUrl (c # cs) =
     (if startsWith (c # cs) ''file:///'' then
        (case (case drop 8 (c # cs) of
                 [] \<Rightarrow> None
               | d # ds \<Rightarrow> if isLineTerminator d then None else capturePath [d] ds) of
           Some m \<Rightarrow> Some m
         | None \<Rightarrow> matchFileUrl cs)
      else matchFileUrl cs)"

definition extractProjectRoot :: "host \<Rightarrow> string \<Rightarrow> string option" where
  "extractProjectRoot h doc =
     (case matchFileUrl doc of
        None \<Rightarrow> None
      | Some m \<Rightarrow>
          (let fullPath = (if \<not> startsWith m ''/'' then ''/'' @ m else m);
               parts = filter (\<lambda>p. p \<noteq> []) (splitOn (CHR ''/'') (safeDecodeURI h fullPath))
           in if 4 \<le> length parts then Some (''/'' @ join ''/'' (take 4 parts)) else None))"

text \<open>\<open>line.match(/^([a-zA-Z0-9_-]+):\s/)\<close>\<close>

definition isIdentifierChar :: "char \<Rightarrow> bool" where
  "isIdentifierChar c =
     (c \<in> set ''abcdefghijklmnopqrstuvwxyzABCDEFGHIJKLMNOPQRSTUVWXYZ0123456789_-'')"

definition identifierMatch :: "string \<Rightarrow> string option" where
  "identifierMatch line =
     (let identifier = takeWhile isIdentifierChar line; r = drop (length identifier) line in
      if identifier \<noteq> [] \<and> startsWith r '':'' \<and> list_ex isWhiteSpace (take 1 (drop 1 r))
      then Some identifier else None)"

fun findUserIdentifier :: "string list \<Rightarrow> string option" where
  "findUserIdentifier [] = None"
| "findUserIdentifier (l # rest) =
     (case identifierMatch (trim l) of
        Some identifier \<Rightarrow>
          (if list_ex (\<lambda>l. startsWith (trim l) ''GitHub Copilot:'') rest then Some identifier
           else findUserIdentifier rest)
      | None \<Rightarrow> findUserIdentifier rest)"

definition extractUserIdentifier :: "string \<Rightarrow> string option" where
  "extractUserIdentifier doc = findUserIdentifier (splitLines doc)"

text \<open>\<open>generateFrontmatter\<close> (lib/formatters.js); \<open>projectRoot || 'N/A'\<close>.\<close>

definition generateFrontmatter :: "string option \<Rightarrow> string \<Rightarrow> string \<Rightarrow> string" where
  "generateFrontmatter projectRoot inputFile processedDate =
     ''---\<newline>type: chat-session\<newline>projectRoot: ''
     @ (case projectRoot of None \<Rightarrow> ''N/A'' | Some r \<Rightarrow> if r = [] then ''N/A'' else r)
     @ ''\<newline>sourceFile: '' @ inputFile
     @ ''\<newline>processedDate: '' @ processedDate
     @ ''\<newline>---\<newline>'' @ MARKERS_PROCESSED @ ''\<newline>\<newline>''"

text \<open>
  The outcome of \<open>processContent\<close>: the value returned (\<open>None\<close> for \<open>null\<close>), the exit of
  the process with a status, or the TypeError of \<open>parseContent\<close>. Console output is not
  modelled.
\<close>

datatype outcome = Returned "string option" | Exited nat | TypeError

definition processContent :: "host \<Rightarrow> string \<Rightarrow> bool \<Rightarrow> bool \<Rightarrow> string \<Rightarrow> outcome" where
  "processContent h doc force silent inputFile =
     (if isAlreadyProcessed doc \<and> \<not> force then Returned (Some doc)
      else
        (let doc' = coreInput doc force;
             projectRoot = extractProjectRoot h doc'
         in case extractUserIdentifier doc' of
              None \<Rightarrow> (if \<not> silent then Exited 1 else Returned None)
            | Some userIdentifier \<Rightarrow>
                (case parseContent doc' userIdentifier of
                   None \<Rightarrow> TypeError
                 | Some secs \<Rightarrow>
                     (let merged = mergeSections secs;
                          frontmatter = generateFrontmatter projectRoot (basename h inputFile) (toISOString h);
                          formattedSections = concat (map (\<lambda>s. formatSection h s projectRoot) merged)
                      in Returned (Some (cleanExcessiveLineBreaks (removeTrailingSpaces
                           (ensureMarkdownSpacing (frontmatter @ formattedSections)))))))))"

section \<open>The order of a turn (specification side)\<close>

text \<open>
  The body the specification asks for, from the segments of one turn in the order they
  were encountered: the joined text of an \<open>AgentResponse\<close>, a placeholder with the number
  of actions seen so far (\<open>n\<close>) for a \<open>ToolAction\<close>.
\<close>

fun bodyInOrder :: "nat \<Rightarrow> section_obj list \<Rightarrow> string list" where
  "bodyInOrder n [] = []"
| "bodyInOrder n (s # rest) =
     (if stype s = AgentResponse then join [CHR 0x0A] (content s) # bodyInOrder n rest
      else if stype s = AgentAction then placeholder n # bodyInOrder (Suc n) rest
      else bodyInOrder n rest)"

section \<open>Runs of line feeds (specification side)\<close>

text \<open>The length a run of \<open>n\<close> line feeds has after the compaction.\<close>

definition compacted :: "nat \<Rightarrow> nat" where
  "compacted n = (if 3 \<le> n then 2 else n)"

section \<open>The Segmenter and the Merger on concrete sessions\<close>

text \<open>
  Claim C1 (interleaving order preserved in the fused body). The session below has two
  agent openers in a row, then a tool action, then prose: the Segmenter emits the
  segments \<open>UserPrompt\<close>, \<open>AgentResponse a\<close>, \<open>AgentResponse b\<close>, \<open>ToolAction\<close>,
  \<open>AgentResponse Done.\<close> in that order. \<open>mergeSections\<close> with \<open>flushAgentContent\<close>
  puts the placeholder between \<open>a\<close> and \<open>b\<close>, before the text of a segment that came
  before the action; the legacy merger keeps the order of the segments.
\<close>

theorem C1_flush_reorders_body:
  "parseContent
     ''alice: hi\<newline>GitHub Copilot: a\<newline>GitHub Copilot: b\<newline>Read [](file:///home/u/p/proj/src/a.js)\<newline>Done.''
     ''alice''
   = Some
      [\<lparr>stype = UserPrompt, content = [''hi''], actions = None, raw = ''hi''\<rparr>,
       \<lparr>stype = AgentResponse, content = [''a''], actions = None, raw = ''a''\<rparr>,
       \<lparr>stype = AgentResponse, content = [''b''], actions = None, raw = ''b''\<rparr>,
       \<lparr>stype = AgentAction, content = [''Read [](file:///home/u/p/proj/src/a.js)''],
          actions = Some [''Read [](file:///home/u/p/proj/src/a.js)''],
          raw = ''Read [](file:///home/u/p/proj/src/a.js)''\<rparr>,
       \<lparr>stype = AgentResponse, content = [''Done.''], actions = None, raw = ''Done.''\<rparr>]
   \<and> mergeSections
      [\<lparr>stype = UserPrompt, content = [''hi''], actions = None, raw = ''hi''\<rparr>,
       \<lparr>stype = AgentResponse, content = [''a''], actions = None, raw = ''a''\<rparr>,
       \<lparr>stype = AgentResponse, content = [''b''], actions = None, raw = ''b''\<rparr>,
       \<lparr>stype = AgentAction, content = [''Read [](file:///home/u/p/proj/src/a.js)''],
          actions = Some [''Read [](file:///home/u/p/proj/src/a.js)''],
          raw = ''Read [](file:///home/u/p/proj/src/a.js)''\<rparr>,
       \<lparr>stype = AgentResponse, content = [''Done.''], actions = None, raw = ''Done.''\<rparr>]
     = [Plain \<lparr>stype = UserPrompt, content = [''hi''], actions = None, raw = ''hi''\<rparr>,
        Fused [''a'', ''__ACTION_PLACEHOLDER_0__'', ''b'', ''Done.'']
          [\<lparr>stype = AgentAction, content = [''Read [](file:///home/u/p/proj/src/a.js)''],
           actions = Some [''Read [](file:///home/u/p/proj/src/a.js)''],
           raw = ''Read [](file:///home/u/p/proj/src/a.js)''\<rparr>]]
   \<and> mergeSections_legacy
      [\<lparr>stype = UserPrompt, content = [''hi''], actions = None, raw = ''hi''\<rparr>,
       \<lparr>stype = AgentResponse, content = [''a''], actions = None, raw = ''a''\<rparr>,
       \<lparr>stype = AgentResponse, content = [''b''], actions = None, raw = ''b''\<rparr>,
       \<lparr>stype = AgentAction, content = [''Read [](file:///home/u/p/proj/src/a.js)''],
          actions = Some [''Read [](file:///home/u/p/proj/src/a.js)''],
          raw = ''Read [](file:///home/u/p/proj/src/a.js)''\<rparr>,
       \<lparr>stype = AgentResponse, content = [''Done.''], actions = None, raw = ''Done.''\<rparr>]
     = [Plain \<lparr>stype = UserPrompt, content = [''hi''], actions = None, raw = ''hi''\<rparr>,
        Fused [''a'', ''b'', ''__ACTION_PLACEHOLDER_0__'', ''Done.'']
          [\<lparr>stype = AgentAction, content = [''Read [](file:///home/u/p/proj/src/a.js)''],
           actions = Some [''Read [](file:///home/u/p/proj/src/a.js)''],
           raw = ''Read [](file:///home/u/p/proj/src/a.js)''\<rparr>]]"
  by code_simp

text \<open>
  Claim C3 (a trailing action sequence is emitted at end of input). The input ends on a
  tool-action line: after the last line the Segmenter is in the action state with one
  accumulated action line, and the list it returns holds no \<open>ToolAction\<close> segment. The
  final test reads \<open>content\<close>, which is still empty: the action lines are in \<open>actions\<close>.
\<close>

theorem C3_trailing_actions_dropped:
  "map_option (\<lambda>st. (inAction st, stype (currentSection st), content (currentSection st),
                      actions (currentSection st)))
     (parseLines ''alice'' initialState
        (splitLines ''alice: hi\<newline>GitHub Copilot: ok\<newline>Read [](file:///home/u/p/proj/src/a.js)''))
   = Some (True, AgentAction, [], Some [''Read [](file:///home/u/p/proj/src/a.js)''])
   \<and> parseContent ''alice: hi\<newline>GitHub Copilot: ok\<newline>Read [](file:///home/u/p/proj/src/a.js)'' ''alice''
     = Some
        [\<lparr>stype = UserPrompt, content = [''hi''], actions = None, raw = ''hi''\<rparr>,
         \<lparr>stype = AgentResponse, content = [''ok''], actions = None, raw = ''ok''\<rparr>]"
  by code_simp

text \<open>
  Claim C4 (orphan segments before the first user prompt pass through unchanged). Two
  segments precede the first prompt here, an \<open>Unknown\<close> one and an \<open>AgentResponse\<close>.
  \<open>mergeSections\<close> drops the first and fuses the second into a synthetic
  \<open>AgentResponse\<close>; the legacy merger returns both as they came.
\<close>

theorem C4_orphans_dropped_or_fused:
  "parseContent ''intro\<newline>GitHub Copilot: welcome\<newline>alice: hi'' ''alice''
   = Some
      [\<lparr>stype = Unknown, content = [''intro''], actions = None, raw = ''intro''\<rparr>,
       \<lparr>stype = AgentResponse, content = [''welcome''], actions = None, raw = ''welcome''\<rparr>,
       \<lparr>stype = UserPrompt, content = [''hi''], actions = None, raw = ''hi''\<rparr>]
   \<and> mergeSections
      [\<lparr>stype = Unknown, content = [''intro''], actions = None, raw = ''intro''\<rparr>,
       \<lparr>stype = AgentResponse, content = [''welcome''], actions = None, raw = ''welcome''\<rparr>,
       \<lparr>stype = UserPrompt, content = [''hi''], actions = None, raw = ''hi''\<rparr>]
     = [Fused [''welcome''] [],
        Plain \<lparr>stype = UserPrompt, content = [''hi''], actions = None, raw = ''hi''\<rparr>]
   \<and> mergeSections_legacy
      [\<lparr>stype = Unknown, content = [''intro''], actions = None, raw = ''intro''\<rparr>,
       \<lparr>stype = AgentResponse, content = [''welcome''], actions = None, raw = ''welcome''\<rparr>,
       \<lparr>stype = UserPrompt, content = [''hi''], actions = None, raw = ''hi''\<rparr>]
     = [Plain \<lparr>stype = Unknown, content = [''intro''], actions = None, raw = ''intro''\<rparr>,
        Plain \<lparr>stype = AgentResponse, content = [''welcome''], actions = None, raw = ''welcome''\<rparr>,
        Plain \<lparr>stype = UserPrompt, content = [''hi''], actions = None, raw = ''hi''\<rparr>]"
  by code_simp

text \<open>
  Claim C10 (the legacy and the modular merger return the same list). They differ on the
  segments of a session in which the agent is asked to continue: the modular merger
  moves the placeholder in front of \<open>continuing\<close>.
\<close>

theorem C10_mergers_differ:
  "mergeSections
     [\<lparr>stype = UserPrompt, content = [''do X''], actions = None, raw = ''do X''\<rparr>,
      \<lparr>stype = AgentResponse, content = [''working''], actions = None, raw = ''working''\<rparr>,
      \<lparr>stype = AgentResponse, content = [''continuing''], actions = None, raw = ''continuing''\<rparr>,
      \<lparr>stype = AgentAction, content = [''Made changes.''], actions = Some [''Made changes.''],
         raw = ''Made changes.''\<rparr>,
      \<lparr>stype = AgentResponse, content = [''Done.''], actions = None, raw = ''Done.''\<rparr>]
   \<noteq> mergeSections_legacy
     [\<lparr>stype = UserPrompt, content = [''do X''], actions = None, raw = ''do X''\<rparr>,
      \<lparr>stype = AgentResponse, content = [''working''], actions = None, raw = ''working''\<rparr>,
      \<lparr>stype = AgentResponse, content = [''continuing''], actions = None, raw = ''continuing''\<rparr>,
      \<lparr>stype = AgentAction, content = [''Made changes.''], actions = Some [''Made changes.''],
         raw = ''Made changes.''\<rparr>,
      \<lparr>stype = AgentResponse, content = [''Done.''], actions = None, raw = ''Done.''\<rparr>]"
  by code_simp

section \<open>Fence safety of the text transforms\<close>

lemma splitLines_not_Nil: "splitLines t \<noteq> []"
  by (induction t) (auto split: list.splits)

lemma splitLines_no_LF: "l \<in> set (splitLines t) \<Longrightarrow> CHR 0x0A \<notin> set l"
proof (induction t arbitrary: l)
  case Nil
  then show ?case by simp
next
  case (Cons c cs)
  show ?case
  proof (cases "c = CHR 0x0A")
    case True
    with Cons show ?thesis by auto
  next
    case False
    obtain x xs where sp: "splitLines cs = x # xs"
      using splitLines_not_Nil [of cs] by (cases "splitLines cs") auto
    with Cons False show ?thesis by auto
  qed
qed

lemma splitLines_line: "CHR 0x0A \<notin> set l \<Longrightarrow> splitLines l = [l]"
  by (induction l) auto

lemma splitLines_line_LF: "CHR 0x0A \<notin> set l \<Longrightarrow> splitLines (l @ CHR 0x0A # r) = l # splitLines r"
  by (induction l) auto

lemma splitLines_join:
  "ls \<noteq> [] \<Longrightarrow> \<forall>l \<in> set ls. CHR 0x0A \<notin> set l \<Longrightarrow> splitLines (join [CHR 0x0A] ls) = ls"
proof (induction "[CHR 0x0A]" ls rule: join.induct)
  case 1
  then show ?case by simp
next
  case (2 x)
  then show ?case by (simp add: splitLines_line)
next
  case (3 x y ys)
  then show ?case by (simp add: splitLines_line_LF)
qed

lemma length_mapLines: "length (mapLines fns b i p ls) = length ls"
  by (induction ls arbitrary: b i p) (simp_all add: Let_def)

lemma set_trim: "set (trim l) \<subseteq> set l"
proof
  fix c assume "c \<in> set (trim l)"
  then have "c \<in> set (dropWhile isWhiteSpace (rev (dropWhile isWhiteSpace l)))"
    by (simp add: trim_def trimEnd_def trimStart_def)
  then have "c \<in> set (rev (dropWhile isWhiteSpace l))"
    by (rule set_dropWhileD)
  then have "c \<in> set (dropWhile isWhiteSpace l)" by simp
  then show "c \<in> set l" by (rule set_dropWhileD)
qed



lemma headingMatch_text:
  "headingMatch s = Some (n, htext) \<Longrightarrow> set htext \<subseteq> set s"
  unfolding headingMatch_def Let_def
  by (auto split: if_splits dest!: in_set_dropD)

lemma shiftHeadingLevel_no_LF:
  assumes "CHR 0x0A \<notin> set line" and "CHR 0x0A \<notin> set (ctx_trimmedLine c)"
  shows "CHR 0x0A \<notin> set (shiftHeadingLevel line c)"
proof (cases "ctx_inCodeBlock c")
  case True
  with assms show ?thesis by (simp add: shiftHeadingLevel_def)
next
  case False
  show ?thesis
  proof (cases "headingMatch (ctx_trimmedLine c)")
    case None
    with False assms show ?thesis by (simp add: shiftHeadingLevel_def)
  next
    case (Some m)
    obtain n htext where m: "m = (n, htext)" by (cases m)
    have "CHR 0x0A \<notin> set htext"
      using headingMatch_text [of "ctx_trimmedLine c" n htext] Some m assms(2) by auto
    with False Some m show ?thesis by (simp add: shiftHeadingLevel_def)
  qed
qed

lemma addLineBreak_no_LF:
  "CHR 0x0A \<notin> set line \<Longrightarrow> CHR 0x0A \<notin> set (addLineBreak line c)"
  by (simp add: addLineBreak_def Let_def)


lemma mapLines_Cons:
  "mapLines [fn] b i p (l # ls) =
     fn l (lineContext b i p l ls) # mapLines [fn] (if isFenceMarker l then \<not> b else b) (Suc i) l ls"
  by (simp add: Let_def isFenceMarker_def lineContext_def)

lemma lineContext_sel [simp]:
  "ctx_inCodeBlock (lineContext b i p l ls) = (if isFenceMarker l then \<not> b else b)"
  "ctx_trimmedLine (lineContext b i p l ls) = trim l"
  by (simp_all add: lineContext_def)

lemma mapLines_no_LF:
  "lineSafe fn \<Longrightarrow> \<forall>l \<in> set ls. CHR 0x0A \<notin> set l
   \<Longrightarrow> \<forall>l \<in> set (mapLines [fn] b i p ls). CHR 0x0A \<notin> set l"
proof (induction ls arbitrary: b i p)
  case Nil
  then show ?case by simp
next
  case (Cons l ls)
  have "CHR 0x0A \<notin> set l" using Cons.prems(2) by simp
  moreover have "CHR 0x0A \<notin> set (trim l)"
    using Cons.prems(2) set_trim [of l] by auto
  ultimately have "CHR 0x0A \<notin> set (fn l (lineContext b i p l ls))"
    using Cons.prems(1) unfolding lineSafe_def by simp
  moreover have "\<forall>x \<in> set (mapLines [fn] (if isFenceMarker l then \<not> b else b) (Suc i) l ls).
      CHR 0x0A \<notin> set x"
    using Cons.IH [OF Cons.prems(1)] Cons.prems(2) by simp
  ultimately show ?case
    unfolding mapLines_Cons by simp
qed


lemma mapLines_inside:
  "fenceAware fn \<Longrightarrow> k < length ls \<Longrightarrow> insideFence b ls ! k
   \<Longrightarrow> mapLines [fn] b i p ls ! k = ls ! k"
proof (induction ls arbitrary: b i p k)
  case Nil
  then show ?case by simp
next
  case (Cons l ls)
  show ?case
  proof (cases k)
    case 0
    with Cons.prems(3) have "\<not> isFenceMarker l" and b by (auto split: if_splits)
    then have "fn l (lineContext b i p l ls) = l"
      using Cons.prems(1) unfolding fenceAware_def by simp
    with 0 show ?thesis unfolding mapLines_Cons by simp
  next
    case (Suc j)
    with Cons.prems have "j < length ls" by simp
    moreover have "insideFence (if isFenceMarker l then \<not> b else b) ls ! j"
      using Cons.prems(3) Suc by (auto split: if_splits)
    ultimately have "mapLines [fn] (if isFenceMarker l then \<not> b else b) (Suc i) l ls ! j = ls ! j"
      using Cons.IH [OF Cons.prems(1)] by blast
    then show ?thesis
      using Suc unfolding mapLines_Cons by simp
  qed
qed

lemma transformLines_lines:
  assumes "lineSafe fn"
  shows "splitLines (transformLines t [fn]) = mapLines [fn] False 0 [] (splitLines t)"
proof -
  have "length (mapLines [fn] False 0 [] (splitLines t)) = length (splitLines t)"
    by (rule length_mapLines)
  then have "mapLines [fn] False 0 [] (splitLines t) \<noteq> []"
    using splitLines_not_Nil [of t] by auto
  moreover have "\<forall>l \<in> set (mapLines [fn] False 0 [] (splitLines t)). CHR 0x0A \<notin> set l"
    using mapLines_no_LF [OF assms] splitLines_no_LF by blast
  ultimately show ?thesis
    unfolding transformLines_def by (rule splitLines_join)
qed

lemma lineSafe_shift: "lineSafe shiftHeadingLevel"
  unfolding lineSafe_def using shiftHeadingLevel_no_LF by blast

lemma lineSafe_break: "lineSafe addLineBreak"
  unfolding lineSafe_def using addLineBreak_no_LF by blast

lemma fenceAware_shift: "fenceAware shiftHeadingLevel"
  by (simp add: fenceAware_def shiftHeadingLevel_def)

lemma fenceAware_break: "fenceAware addLineBreak"
  by (simp add: fenceAware_def addLineBreak_def Let_def)


lemma fenceAware_lines:
  assumes "lineSafe fn" and "fenceAware fn"
  shows "length (splitLines (transformLines t [fn])) = length (splitLines t)"
    and "i < length (splitLines t) \<Longrightarrow> insideFence False (splitLines t) ! i
         \<Longrightarrow> splitLines (transformLines t [fn]) ! i = splitLines t ! i"
  unfolding transformLines_lines [OF assms(1)]
  by (rule length_mapLines, rule mapLines_inside [OF assms(2)])

text \<open>
  Claim C5 (no transform alters a line inside a fenced block), as amended: heading shift
  and forced line-break insertion return as many lines as they are given, and every line
  strictly inside a fenced block comes back character for character.
\<close>

theorem C5_fence_safety_of_line_transforms:
  "length (splitLines (shiftHeadingLevels t)) = length (splitLines t)
   \<and> length (splitLines (forceLineBreaks t)) = length (splitLines t)
   \<and> (\<forall>i < length (splitLines t). insideFence False (splitLines t) ! i \<longrightarrow>
         splitLines (shiftHeadingLevels t) ! i = splitLines t ! i
         \<and> splitLines (forceLineBreaks t) ! i = splitLines t ! i)"
  unfolding shiftHeadingLevels_def forceLineBreaks_def
  using fenceAware_lines [OF lineSafe_shift fenceAware_shift, where t = t]
        fenceAware_lines [OF lineSafe_break fenceAware_break, where t = t]
  by blast

theorem C5_fence_safety_witness:
  "insideFence False (splitLines ''# a\<newline>```\<newline># c\<newline>x\<newline>```'') ! 2
   \<and> splitLines (shiftHeadingLevels ''# a\<newline>```\<newline># c\<newline>x\<newline>```'') ! 2 = ''# c''
   \<and> splitLines (forceLineBreaks ''# a\<newline>```\<newline># c\<newline>x\<newline>```'') ! 2 = ''# c''"
proof -
  have len: "2 < length (splitLines ''# a\<newline>```\<newline># c\<newline>x\<newline>```'')"
    by code_simp
  have ins: "insideFence False (splitLines ''# a\<newline>```\<newline># c\<newline>x\<newline>```'') ! 2"
    by code_simp
  have line: "splitLines ''# a\<newline>```\<newline># c\<newline>x\<newline>```'' ! 2 = ''# c''"
    by code_simp
  show ?thesis
    using C5_fence_safety_of_line_transforms [of "''# a\<newline>```\<newline># c\<newline>x\<newline>```''"] len ins line
    by metis
qed

text \<open>
  Claim C5 as stated fails for the three other transforms. Trailing-space normalization
  strips the space of the fenced line \<open>x \<close>; blank-line compaction removes a blank
  line between the fenced lines \<open>a\<close> and \<open>b\<close>; structural spacing inserts blank lines
  after the fenced line \<open># c\<close> and after \<open>x\<close>.
\<close>

theorem C5_counterexample:
  "removeTrailingSpaces ''```\<newline>x \<newline>```'' = ''```\<newline>x\<newline>```''
   \<and> cleanExcessiveLineBreaks ''```\<newline>a\<newline>\<newline>\<newline>b\<newline>```'' = ''```\<newline>a\<newline>\<newline>b\<newline>```''
   \<and> ensureMarkdownSpacing ''```\<newline># c\<newline>x\<newline>```'' = ''```\<newline># c\<newline>\<newline>x\<newline>\<newline>```''"
  by code_simp

text \<open>
  Claim C8 (blank-line compaction). Two blank lines between \<open>a\<close> and \<open>b\<close> are three line
  feeds in a row: the transform leaves one blank line. Three blank lines come back as one
  blank line as well, not two.
\<close>

theorem C8_blank_runs_collapse_to_one:
  "splitLines ''a\<newline>\<newline>\<newline>b'' = [''a'', [], [], ''b'']
   \<and> splitLines (cleanExcessiveLineBreaks ''a\<newline>\<newline>\<newline>b'') = [''a'', [], ''b'']
   \<and> splitLines ''a\<newline>\<newline>\<newline>\<newline>b'' = [''a'', [], [], [], ''b'']
   \<and> splitLines (cleanExcessiveLineBreaks ''a\<newline>\<newline>\<newline>\<newline>b'') = [''a'', [], ''b'']"
  by code_simp

section \<open>Placeholder density of the fused responses\<close>

lemma digit_cases: "k < 10 \<Longrightarrow> k = 0 \<or> k = 1 \<or> k = 2 \<or> k = 3 \<or> k = 4 \<or> k = 5 \<or> k = 6 \<or> k = 7 \<or> k = 8 \<or> k = (9::nat)"
  by arith

lemma isDigit_nth: "k < 10 \<Longrightarrow> isDigit (''0123456789'' ! k)"
  using digit_cases [of k] by (auto simp: isDigit_def)

lemma digitValue_nth: "k < 10 \<Longrightarrow> digitValue (''0123456789'' ! k) = k"
  using digit_cases [of k] by (auto simp: digitValue_def)

lemma decimal_digits: "decimal n \<noteq> [] \<and> (\<forall>c \<in> set (decimal n). isDigit c)"
proof (induction n rule: decimal.induct)
  case (1 n)
  show ?case
  proof (cases "n < 10")
    case True
    then show ?thesis by (simp add: decimal.simps [of n] isDigit_nth)
  next
    case False
    with 1 show ?thesis by (simp add: decimal.simps [of n] isDigit_nth)
  qed
qed

lemma decimalValue_snoc: "decimalValue (s @ [c]) = 10 * decimalValue s + digitValue c"
  by (simp add: decimalValue_def)

lemma decimalValue_decimal: "decimalValue (decimal n) = n"
proof (induction n rule: decimal.induct)
  case (1 n)
  show ?case
  proof (cases "n < 10")
    case True
    then show ?thesis by (simp add: decimal.simps [of n] decimalValue_def digitValue_nth)
  next
    case False
    with 1 show ?thesis
      by (simp add: decimal.simps [of n] decimalValue_snoc digitValue_nth)
  qed
qed

lemma decimal_inj: "decimal m = decimal n \<Longrightarrow> m = n"
  by (metis decimalValue_decimal)

lemma placeholder_inj: "placeholder m = placeholder n \<Longrightarrow> m = n"
  by (simp add: placeholder_def decimal_inj)

lemma takeWhile_digits: "\<forall>c \<in> set d. isDigit c \<Longrightarrow> takeWhile isDigit (d @ ''__'') = d"
  by (simp add: takeWhile_append2 isDigit_def)

lemma underscore_no_digit: "\<not> isDigit (CHR ''_'')"
  by (simp add: isDigit_def)

lemma isPlaceholder_placeholder: "isPlaceholder (placeholder n)"
  using decimal_digits [of n]
  by (simp add: isPlaceholder_def placeholder_def startsWith_def takeWhile_digits underscore_no_digit)

lemma distinct_placeholders: "distinct (map placeholder [0..<n])"
  by (simp add: distinct_map inj_on_def) (blast dest: placeholder_inj)

lemma interleave_actions: "snd (interleave cs as fc fa) = fa @ as"
  by (induction cs as fc fa rule: interleave.induct) simp_all

lemma upt_plus_Suc: "[n..<n + Suc k] = n # [Suc n..<Suc n + k]"
  by (simp add: upt_conv_Cons)

lemma interleave_placeholders:
  "\<forall>c \<in> set cs. \<not> isPlaceholder c \<Longrightarrow>
   filter isPlaceholder (fst (interleave cs as fc fa))
     = filter isPlaceholder fc @ map placeholder [length fa..<length fa + length as]"
proof (induction cs as fc fa rule: interleave.induct)
  case (1 fc fa)
  then show ?case by simp
next
  case (2 c cs fc fa)
  then show ?case by simp
next
  case (3 a as fc fa)
  have "[length fa..<length fa + length (a # as)] = length fa # [Suc (length fa)..<Suc (length fa) + length as]"
    using upt_plus_Suc [of "length fa" "length as"] by simp
  with 3 show ?case by (simp add: isPlaceholder_placeholder del: upt_Suc)
next
  case (4 c cs a as fc fa)
  have "[length fa..<length fa + length (a # as)] = length fa # [Suc (length fa)..<Suc (length fa) + length as]"
    using upt_plus_Suc [of "length fa" "length as"] by simp
  with 4 show ?case by (simp add: isPlaceholder_placeholder del: upt_Suc)
qed

lemma dense_interleave:
  assumes "\<forall>c \<in> set cs. \<not> isPlaceholder c" and "interleave cs as [] [] = (fc, fa)"
  shows "dense (Fused fc fa)"
proof -
  have "filter isPlaceholder fc = map placeholder [0..<length as]"
    using interleave_placeholders [OF assms(1), of as "[]" "[]"] assms(2) by simp
  moreover have "fa = as"
    using interleave_actions [of cs as "[]" "[]"] assms(2) by simp
  ultimately show ?thesis by simp
qed

lemma flush_inv: "mergeInv ms \<Longrightarrow> mergeInv (flushAgentContent ms)"
proof -
  assume inv: "mergeInv ms"
  obtain fc fa where il: "interleave (agentContent (snd ms)) (agentActions (snd ms)) [] [] = (fc, fa)"
    by (cases "interleave (agentContent (snd ms)) (agentActions (snd ms)) [] []")
  have "dense (Fused fc fa)"
    using dense_interleave [OF _ il] inv by (simp add: mergeInv_def)
  with inv il show ?thesis
    by (simp add: flushAgentContent_def mergeInv_def Let_def)
qed

lemma mergeStep_inv: "mergeInv ms \<Longrightarrow> plainText s \<Longrightarrow> mergeInv (mergeStep ms s)"
proof -
  assume inv: "mergeInv ms" and pt: "plainText s"
  obtain merged state where fl: "flushAgentContent ms = (merged, state)"
    by (cases "flushAgentContent ms")
  have "mergeInv (merged, state)"
    using flush_inv [OF inv] fl by simp
  with inv pt fl show ?thesis
    by (simp add: mergeStep_def mergeInv_def plainText_def)
qed

lemma foldl_mergeStep_inv:
  "mergeInv ms \<Longrightarrow> \<forall>s \<in> set secs. plainText s \<Longrightarrow> mergeInv (foldl mergeStep ms secs)"
  by (induction secs arbitrary: ms) (simp_all add: mergeStep_inv)

lemma mergeSections_dense:
  assumes "\<forall>s \<in> set secs. plainText s"
  shows "\<forall>m \<in> set (mergeSections secs). dense m"
proof -
  have "mergeInv ([], \<lparr>currentPrompt = None, agentContent = [], agentActions = []\<rparr>)"
    by (simp add: mergeInv_def)
  then have "mergeInv (flushAgentContent
      (foldl mergeStep ([], \<lparr>currentPrompt = None, agentContent = [], agentActions = []\<rparr>) secs))"
    using assms by (intro flush_inv foldl_mergeStep_inv)
  then show ?thesis
    by (simp add: mergeSections_def mergeInv_def)
qed

lemma fuseStep_inv: "fuseInv acc \<Longrightarrow> plainText item \<Longrightarrow> fuseInv (fuseStep acc item)"
  by (simp add: fuseInv_def fuseStep_def plainText_def isPlaceholder_placeholder)

lemma foldl_fuseStep_inv:
  "fuseInv acc \<Longrightarrow> \<forall>s \<in> set items. plainText s \<Longrightarrow> fuseInv (foldl fuseStep acc items)"
  by (induction items arbitrary: acc) (simp_all add: fuseStep_inv)

lemma dense_fuse: "\<forall>s \<in> set items. plainText s \<Longrightarrow> dense (fuse items)"
proof -
  assume a: "\<forall>s \<in> set items. plainText s"
  have "fuseInv (foldl fuseStep ([], []) items)"
    using a by (intro foldl_fuseStep_inv) (simp_all add: fuseInv_def)
  then show ?thesis
    by (cases "foldl fuseStep ([], []) items") (simp add: fuse_def fuseInv_def)
qed

lemma mergeSections_legacy_dense:
  "\<forall>s \<in> set secs. plainText s \<Longrightarrow> \<forall>m \<in> set (mergeSections_legacy secs). dense m"
proof (induction secs rule: mergeSections_legacy.induct)
  case 1
  then show ?case by simp
next
  case (2 s rest)
  have tw: "\<forall>x \<in> set (takeWhile (\<lambda>x. stype x \<noteq> UserPrompt) rest). plainText x"
    using "2.prems" by (auto dest: set_takeWhileD)
  have dw: "\<forall>x \<in> set (dropWhile (\<lambda>x. stype x \<noteq> UserPrompt) rest). plainText x"
    using "2.prems" by (auto dest: set_dropWhileD)
  show ?case
  proof (cases "stype s = UserPrompt")
    case True
    have "dense (fuse (takeWhile (\<lambda>x. stype x \<noteq> UserPrompt) rest))"
      using tw by (rule dense_fuse)
    moreover have "\<forall>m \<in> set (mergeSections_legacy (dropWhile (\<lambda>x. stype x \<noteq> UserPrompt) rest)). dense m"
      using "2.IH"(1) [OF True refl dw] .
    ultimately show ?thesis using True by (auto simp: Let_def)
  next
    case False
    with "2.IH" "2.prems" show ?thesis by simp
  qed
qed

text \<open>
  Claim C7 (placeholder density), as amended: when no \<open>agent-response\<close> segment has a
  joined text that is itself a placeholder entry, then in every fused \<open>AgentResponse\<close> of
  either merger the placeholder entries of the body are exactly
  \<open>__ACTION_PLACEHOLDER_0__\<close>, ..., \<open>__ACTION_PLACEHOLDER_{n-1}__\<close>, \<open>n\<close> the length of
  its actions list, each once.
\<close>

theorem C7_placeholder_density:
  assumes "\<forall>s \<in> set secs. stype s = AgentResponse \<longrightarrow> \<not> isPlaceholder (join [CHR 0x0A] (content s))"
  shows "\<forall>body acts. Fused body acts \<in> set (mergeSections secs) \<union> set (mergeSections_legacy secs) \<longrightarrow>
           filter isPlaceholder body = map placeholder [0..<length acts]
           \<and> distinct (filter isPlaceholder body)"
proof (intro allI impI)
  fix body acts
  assume mem: "Fused body acts \<in> set (mergeSections secs) \<union> set (mergeSections_legacy secs)"
  have pt: "\<forall>s \<in> set secs. plainText s"
    using assms by (simp add: plainText_def)
  have "dense (Fused body acts)"
    using mem mergeSections_dense [OF pt] mergeSections_legacy_dense [OF pt] by blast
  then have eq: "filter isPlaceholder body = map placeholder [0..<length acts]"
    by simp
  show "filter isPlaceholder body = map placeholder [0..<length acts]
        \<and> distinct (filter isPlaceholder body)"
    unfolding eq using distinct_placeholders by simp
qed

theorem C7_placeholder_density_witness:
  "filter isPlaceholder [''hello'', ''__ACTION_PLACEHOLDER_0__'', ''Done.'']
     = map placeholder [0..<length [\<lparr>stype = AgentAction, content = [''Made changes.''],
                                    actions = Some [''Made changes.''], raw = ''Made changes.''\<rparr>]]
   \<and> distinct (filter isPlaceholder [''hello'', ''__ACTION_PLACEHOLDER_0__'', ''Done.''])"
proof -
  let ?secs = "[\<lparr>stype = UserPrompt, content = [''hi''], actions = None, raw = ''hi''\<rparr>,
                \<lparr>stype = AgentResponse, content = [''hello''], actions = None, raw = ''hello''\<rparr>,
                \<lparr>stype = AgentAction, content = [''Made changes.''],
                   actions = Some [''Made changes.''], raw = ''Made changes.''\<rparr>,
                \<lparr>stype = AgentResponse, content = [''Done.''], actions = None, raw = ''Done.''\<rparr>]"
  have hyp: "\<forall>s \<in> set ?secs. stype s = AgentResponse \<longrightarrow> \<not> isPlaceholder (join [CHR 0x0A] (content s))"
    by code_simp
  have mem: "Fused [''hello'', ''__ACTION_PLACEHOLDER_0__'', ''Done.'']
               [\<lparr>stype = AgentAction, content = [''Made changes.''],
                  actions = Some [''Made changes.''], raw = ''Made changes.''\<rparr>]
             \<in> set (mergeSections ?secs) \<union> set (mergeSections_legacy ?secs)"
    by code_simp
  show ?thesis
    using C7_placeholder_density [OF hyp] mem by blast
qed

text \<open>
  Claim C7 as stated fails when the agent's own text is a placeholder string: the body
  then holds \<open>__ACTION_PLACEHOLDER_0__\<close> twice, once as text and once for the action.
\<close>

theorem C7_counterexample:
  "parseContent ''alice: hi\<newline>GitHub Copilot: __ACTION_PLACEHOLDER_0__\<newline>Made changes.\<newline>Done.'' ''alice''
   = Some
      [\<lparr>stype = UserPrompt, content = [''hi''], actions = None, raw = ''hi''\<rparr>,
       \<lparr>stype = AgentResponse, content = [''__ACTION_PLACEHOLDER_0__''], actions = None,
          raw = ''__ACTION_PLACEHOLDER_0__''\<rparr>,
       \<lparr>stype = AgentAction, content = [''Made changes.''], actions = Some [''Made changes.''],
          raw = ''Made changes.''\<rparr>,
       \<lparr>stype = AgentResponse, content = [''Done.''], actions = None, raw = ''Done.''\<rparr>]
   \<and> mergeSections
      [\<lparr>stype = UserPrompt, content = [''hi''], actions = None, raw = ''hi''\<rparr>,
       \<lparr>stype = AgentResponse, content = [''__ACTION_PLACEHOLDER_0__''], actions = None,
          raw = ''__ACTION_PLACEHOLDER_0__''\<rparr>,
       \<lparr>stype = AgentAction, content = [''Made changes.''], actions = Some [''Made changes.''],
          raw = ''Made changes.''\<rparr>,
       \<lparr>stype = AgentResponse, content = [''Done.''], actions = None, raw = ''Done.''\<rparr>]
     = [Plain \<lparr>stype = UserPrompt, content = [''hi''], actions = None, raw = ''hi''\<rparr>,
        Fused [placeholder 0, placeholder 0, ''Done.'']
          [\<lparr>stype = AgentAction, content = [''Made changes.''], actions = Some [''Made changes.''],
              raw = ''Made changes.''\<rparr>]]"
  by code_simp

section \<open>Turn count of the Segmenter and the Merger\<close>

lemma userPrompts_append [simp]: "userPrompts (xs @ ys) = userPrompts xs + userPrompts ys"
  by (simp add: userPrompts_def)

lemma userPrompts_Nil [simp]: "userPrompts [] = 0"
  by (simp add: userPrompts_def)

lemma userPrompts_single [simp]: "userPrompts [s] = (if stype s = UserPrompt then 1 else 0)"
  by (simp add: userPrompts_def)

lemma pushSection_sel [simp]:
  "sections (pushSection st) = sections st @ [(currentSection st)\<lparr>raw := join [CHR 0x0A] (content (currentSection st))\<rparr>]"
  "currentSection (pushSection st) = currentSection st"
  "inCodeBlock (pushSection st) = inCodeBlock st"
  "inAction (pushSection st) = inAction st"
  by (simp_all add: pushSection_def)

lemma pushLine_sel [simp]:
  "sections (pushLine l st) = sections st"
  "stype (currentSection (pushLine l st)) = stype (currentSection st)"
  "content (currentSection (pushLine l st)) = content (currentSection st) @ [l]"
  "actions (currentSection (pushLine l st)) = actions (currentSection st)"
  "inCodeBlock (pushLine l st) = inCodeBlock st"
  "inAction (pushLine l st) = inAction st"
  by (simp_all add: pushLine_def)

lemma newSection_sel [simp]:
  "stype (newSection t c a) = t"
  "content (newSection t c a) = c"
  "actions (newSection t c a) = a"
  by (simp_all add: newSection_def)

text \<open>One line without a fence, seen from the observation.\<close>

lemma parseLine_noise:
  "some NOISE_PATTERNS (trim line) \<Longrightarrow> parseLine uid st line = Some st"
  by (simp add: parseLine_def)

lemma parseLine_fence:
  "\<not> some NOISE_PATTERNS (trim line) \<Longrightarrow> startsWith line ''```''
   \<Longrightarrow> parseLine uid st line = Some ((pushLine line st)\<lparr>inCodeBlock := \<not> inCodeBlock st\<rparr>)"
  by (simp add: parseLine_def)

lemma parseLine_inCode:
  "\<not> some NOISE_PATTERNS (trim line) \<Longrightarrow> \<not> startsWith line ''```'' \<Longrightarrow> inCodeBlock st
   \<Longrightarrow> parseLine uid st line = Some (pushLine line st)"
  by (simp add: parseLine_def)

lemma step_fence:
  assumes "wellFormed st" "\<not> some NOISE_PATTERNS (trim line)" "startsWith line ''```''"
  shows "\<exists>st1. parseLine uid st line = Some st1 \<and> wellFormed st1
           \<and> inCodeBlock st1 = (\<not> inCodeBlock st) \<and> promptOpen st1 = promptOpen st
           \<and> promptsSoFar st1 = promptsSoFar st"
  using assms
  by (simp add: parseLine_fence wellFormed_def promptOpen_def promptsSoFar_def)

lemma step_inCode:
  assumes "wellFormed st" "\<not> some NOISE_PATTERNS (trim line)" "\<not> startsWith line ''```''"
    "inCodeBlock st"
  shows "\<exists>st1. parseLine uid st line = Some st1 \<and> wellFormed st1
           \<and> inCodeBlock st1 = inCodeBlock st \<and> promptOpen st1 = promptOpen st
           \<and> promptsSoFar st1 = promptsSoFar st"
  using assms
  by (simp add: parseLine_inCode wellFormed_def promptOpen_def promptsSoFar_def)

lemma step_user:
  assumes "wellFormed st" "\<not> some NOISE_PATTERNS (trim line)" "\<not> startsWith line ''```''"
    "\<not> inCodeBlock st" "startsWith line (uid @ '':'')"
  shows "\<exists>st1. parseLine uid st line = Some st1 \<and> wellFormed st1
           \<and> inCodeBlock st1 = inCodeBlock st
           \<and> promptOpen st1 = (promptOpen st \<or> isUserOpener uid line)
           \<and> promptsSoFar st1 = promptsSoFar st + (if isUserOpener uid line then 1 else 0)"
proof (cases "some IGNORE_USER_PROMPTS (trim (removeFirst (uid @ '':'') line))")
  case True
  with assms show ?thesis
    by (simp add: parseLine_def isUserOpener_def)
next
  case False
  with assms show ?thesis
    by (simp add: parseLine_def isUserOpener_def wellFormed_def promptOpen_def promptsSoFar_def)
qed

lemma step_agent:
  assumes "wellFormed st" "\<not> some NOISE_PATTERNS (trim line)" "\<not> startsWith line ''```''"
    "\<not> inCodeBlock st" "\<not> startsWith line (uid @ '':'')" "startsWith line ''GitHub Copilot:''"
  shows "\<exists>st1. parseLine uid st line = Some st1 \<and> wellFormed st1
           \<and> inCodeBlock st1 = inCodeBlock st \<and> \<not> promptOpen st1
           \<and> promptsSoFar st1 = promptsSoFar st"
  using assms
  by (simp add: parseLine_def wellFormed_def promptOpen_def promptsSoFar_def)

lemma parseLine_rest:
  "\<not> some NOISE_PATTERNS (trim line) \<Longrightarrow> \<not> startsWith line ''```'' \<Longrightarrow> \<not> inCodeBlock st
   \<Longrightarrow> \<not> startsWith line (uid @ '':'') \<Longrightarrow> \<not> startsWith line ''GitHub Copilot:''
   \<Longrightarrow> parseLine uid st line = actionStep st line"
  by (simp add: parseLine_def)

lemma actionStep_action_obs:
  assumes "wellFormed st" "some ACTION_PATTERNS line" "\<not> promptOpen st"
  shows "\<exists>st1. actionStep st line = Some st1 \<and> wellFormed st1
           \<and> inCodeBlock st1 = inCodeBlock st \<and> \<not> promptOpen st1
           \<and> promptsSoFar st1 = promptsSoFar st"
proof (cases "inAction st")
  case True
  with assms(1) obtain acts where "actions (currentSection st) = Some acts"
    by (auto simp: wellFormed_def)
  with True assms show ?thesis
    by (simp add: actionStep_def wellFormed_def promptOpen_def promptsSoFar_def)
next
  case False
  with assms show ?thesis
    by (simp add: actionStep_def wellFormed_def promptOpen_def promptsSoFar_def)
qed

lemma actionStep_other_obs:
  assumes "wellFormed st" "\<not> some ACTION_PATTERNS line"
  shows "\<exists>st1. actionStep st line = Some st1 \<and> wellFormed st1
           \<and> inCodeBlock st1 = inCodeBlock st \<and> promptOpen st1 = promptOpen st
           \<and> promptsSoFar st1 = promptsSoFar st"
proof (cases "inAction st")
  case True
  with assms(1) obtain acts where "actions (currentSection st) = Some acts"
      and "stype (currentSection st) = AgentAction"
    by (auto simp: wellFormed_def)
  with True assms show ?thesis
    by (simp add: actionStep_def wellFormed_def promptOpen_def promptsSoFar_def)
next
  case False
  with assms show ?thesis
    by (simp add: actionStep_def wellFormed_def promptOpen_def promptsSoFar_def)
qed

lemma parseLines_prompts:
  "wellFormed st \<Longrightarrow> \<not> actionAfterPrompt uid (inCodeBlock st) (promptOpen st) ls \<Longrightarrow>
   \<exists>st'. parseLines uid st ls = Some st' \<and> wellFormed st'
     \<and> promptsSoFar st' = promptsSoFar st + openersOutsideFences uid (inCodeBlock st) ls"
proof (induction ls arbitrary: st)
  case Nil
  then show ?case by simp
next
  case (Cons line rest)
  note wf = Cons.prems(1) and ok = Cons.prems(2)
  have step: "\<exists>st1. parseLine uid st line = Some st1 \<and> wellFormed st1
      \<and> \<not> actionAfterPrompt uid (inCodeBlock st1) (promptOpen st1) rest
      \<and> promptsSoFar st1 + openersOutsideFences uid (inCodeBlock st1) rest
          = promptsSoFar st + openersOutsideFences uid (inCodeBlock st) (line # rest)"
  proof (cases "some NOISE_PATTERNS (trim line)")
    case True
    with wf ok show ?thesis by (simp add: parseLine_noise)
  next
    case noise: False
    show ?thesis
    proof (cases "startsWith line ''```''")
      case True
      with step_fence [OF wf noise True, of uid] ok noise show ?thesis by auto
    next
      case fence: False
      show ?thesis
      proof (cases "inCodeBlock st")
        case True
        with step_inCode [OF wf noise fence True, of uid] ok noise fence show ?thesis by auto
      next
        case code: False
        show ?thesis
        proof (cases "startsWith line (uid @ '':'')")
          case True
          with step_user [OF wf noise fence code True] ok noise fence code show ?thesis by auto
        next
          case user: False
          then have nopener: "\<not> isUserOpener uid line" by (simp add: isUserOpener_def)
          show ?thesis
          proof (cases "startsWith line ''GitHub Copilot:''")
            case True
            with step_agent [OF wf noise fence code user True] ok noise fence code user nopener
            show ?thesis by auto
          next
            case agent: False
            have pl: "parseLine uid st line = actionStep st line"
              using noise fence code user agent by (rule parseLine_rest)
            show ?thesis
            proof (cases "some ACTION_PATTERNS line")
              case True
              with ok noise fence code user agent have np: "\<not> promptOpen st"
                and okr: "\<not> actionAfterPrompt uid (inCodeBlock st) False rest" by auto
              with actionStep_action_obs [OF wf True np] pl noise fence code nopener
              show ?thesis by auto
            next
              case False
              with ok noise fence code user agent
              have okr: "\<not> actionAfterPrompt uid (inCodeBlock st) (promptOpen st) rest" by auto
              with actionStep_other_obs [OF wf False] pl noise fence code nopener
              show ?thesis by auto
            qed
          qed
        qed
      qed
    qed
  qed
  then obtain st1 where p1: "parseLine uid st line = Some st1" and wf1: "wellFormed st1"
    and ok1: "\<not> actionAfterPrompt uid (inCodeBlock st1) (promptOpen st1) rest"
    and c1: "promptsSoFar st1 + openersOutsideFences uid (inCodeBlock st1) rest
          = promptsSoFar st + openersOutsideFences uid (inCodeBlock st) (line # rest)"
    by blast
  from Cons.IH [OF wf1 ok1] obtain st' where "parseLines uid st1 rest = Some st'"
    and "wellFormed st'"
    and "promptsSoFar st' = promptsSoFar st1 + openersOutsideFences uid (inCodeBlock st1) rest"
    by blast
  with p1 c1 show ?case by simp
qed

lemma lastSection_prompts: "wellFormed st \<Longrightarrow> userPrompts (lastSection st) = promptsSoFar st"
  by (simp add: lastSection_def wellFormed_def promptsSoFar_def promptOpen_def)

lemma wellFormed_initial: "wellFormed initialState"
  by (simp add: wellFormed_def initialState_def)

lemma promptsSoFar_initial: "promptsSoFar initialState = 0"
  by (simp add: promptsSoFar_def promptOpen_def initialState_def)

lemma inCodeBlock_initial: "\<not> inCodeBlock initialState" "\<not> promptOpen initialState"
  by (simp_all add: promptOpen_def initialState_def)

lemma parseContent_prompts:
  assumes "\<not> actionAfterPrompt uid False False (splitLines t)"
  shows "\<exists>secs. parseContent t uid = Some secs
           \<and> userPrompts secs = openersOutsideFences uid False (splitLines t)"
proof -
  have "\<not> actionAfterPrompt uid (inCodeBlock initialState) (promptOpen initialState) (splitLines t)"
    using assms inCodeBlock_initial by simp
  from parseLines_prompts [OF wellFormed_initial this]
  obtain st' where "parseLines uid initialState (splitLines t) = Some st'" and "wellFormed st'"
    and "promptsSoFar st' = openersOutsideFences uid False (splitLines t)"
    using inCodeBlock_initial promptsSoFar_initial by auto
  then show ?thesis
    by (simp add: parseContent_def lastSection_prompts)
qed

lemma actionStep_wellFormed:
  assumes "wellFormed st"
  shows "\<exists>st1. actionStep st line = Some st1 \<and> wellFormed st1"
proof (cases "some ACTION_PATTERNS line")
  case True
  show ?thesis
  proof (cases "inAction st")
    case inA: True
    with assms obtain acts where "actions (currentSection st) = Some acts"
      by (auto simp: wellFormed_def)
    with inA True assms show ?thesis
      by (simp add: actionStep_def wellFormed_def)
  next
    case False
    with True assms show ?thesis
      by (simp add: actionStep_def wellFormed_def)
  qed
next
  case False
  with actionStep_other_obs [OF assms False] show ?thesis by blast
qed

lemma parseLine_wellFormed:
  assumes wf: "wellFormed st"
  shows "\<exists>st1. parseLine uid st line = Some st1 \<and> wellFormed st1"
proof (cases "some NOISE_PATTERNS (trim line)")
  case True
  with wf show ?thesis by (simp add: parseLine_noise)
next
  case noise: False
  show ?thesis
  proof (cases "startsWith line ''```''")
    case True
    with step_fence [OF wf noise True, of uid] show ?thesis by blast
  next
    case fence: False
    show ?thesis
    proof (cases "inCodeBlock st")
      case True
      with step_inCode [OF wf noise fence True, of uid] show ?thesis by blast
    next
      case code: False
      show ?thesis
      proof (cases "startsWith line (uid @ '':'')")
        case True
        with step_user [OF wf noise fence code True] show ?thesis by blast
      next
        case user: False
        show ?thesis
        proof (cases "startsWith line ''GitHub Copilot:''")
          case True
          with step_agent [OF wf noise fence code user True] show ?thesis by blast
        next
          case False
          with parseLine_rest [OF noise fence code user False] actionStep_wellFormed [OF wf, of line]
          show ?thesis by simp
        qed
      qed
    qed
  qed
qed

lemma parseLines_total:
  "wellFormed st \<Longrightarrow> \<exists>st'. parseLines uid st ls = Some st' \<and> wellFormed st'"
proof (induction ls arbitrary: st)
  case Nil
  then show ?case by simp
next
  case (Cons line rest)
  from parseLine_wellFormed [OF Cons.prems, of uid line]
  obtain st1 where "parseLine uid st line = Some st1" and "wellFormed st1" by blast
  with Cons.IH [of st1] show ?case by simp
qed

lemma parseContent_total: "\<exists>secs. parseContent t uid = Some secs"
  using parseLines_total [OF wellFormed_initial, of uid "splitLines t"]
  by (auto simp: parseContent_def)

lemma mergedUserPrompts_append [simp]:
  "mergedUserPrompts (xs @ ys) = mergedUserPrompts xs + mergedUserPrompts ys"
  by (simp add: mergedUserPrompts_def)

lemma mergedUserPrompts_simps [simp]:
  "mergedUserPrompts [] = 0"
  "mergedUserPrompts (Plain s # ms) = (if stype s = UserPrompt then 1 else 0) + mergedUserPrompts ms"
  "mergedUserPrompts (Fused c a # ms) = mergedUserPrompts ms"
  by (simp_all add: mergedUserPrompts_def)

lemma flush_prompts: "mergedUserPrompts (fst (flushAgentContent ms)) = mergedUserPrompts (fst ms)"
  by (simp add: flushAgentContent_def Let_def split: prod.splits)

lemma mergeStep_prompts:
  "mergedUserPrompts (fst (mergeStep ms s))
     = mergedUserPrompts (fst ms) + (if stype s = UserPrompt then 1 else 0)"
proof (cases "stype s = UserPrompt")
  case True
  obtain merged state where fl: "flushAgentContent ms = (merged, state)"
    by (cases "flushAgentContent ms")
  then have "mergedUserPrompts merged = mergedUserPrompts (fst ms)"
    using flush_prompts [of ms] by simp
  with True fl show ?thesis by (simp add: mergeStep_def)
next
  case False
  then show ?thesis by (simp add: mergeStep_def)
qed

lemma foldl_mergeStep_prompts:
  "mergedUserPrompts (fst (foldl mergeStep ms secs)) = mergedUserPrompts (fst ms) + userPrompts secs"
proof (induction secs arbitrary: ms)
  case Nil
  then show ?case by simp
next
  case (Cons s secs)
  have "userPrompts (s # secs) = (if stype s = UserPrompt then 1 else 0) + userPrompts secs"
    by (simp add: userPrompts_def)
  with Cons [of "mergeStep ms s"] show ?case by (simp add: mergeStep_prompts)
qed

lemma mergeSections_prompts: "mergedUserPrompts (mergeSections secs) = userPrompts secs"
  by (simp add: mergeSections_def flush_prompts foldl_mergeStep_prompts)

lemma userPrompts_dropWhile:
  "userPrompts (dropWhile (\<lambda>x. stype x \<noteq> UserPrompt) secs) = userPrompts secs"
  by (induction secs) (simp_all add: userPrompts_def)

lemma mergeSections_legacy_prompts: "mergedUserPrompts (mergeSections_legacy secs) = userPrompts secs"
proof (induction secs rule: mergeSections_legacy.induct)
  case 1
  then show ?case by simp
next
  case (2 s rest)
  have cons: "userPrompts (s # rest) = (if stype s = UserPrompt then 1 else 0) + userPrompts rest"
    by (simp add: userPrompts_def)
  show ?case
  proof (cases "stype s = UserPrompt")
    case True
    have "mergedUserPrompts (mergeSections_legacy (dropWhile (\<lambda>x. stype x \<noteq> UserPrompt) rest))
          = userPrompts rest"
      using "2.IH"(1) [OF True refl] userPrompts_dropWhile [of rest] by simp
    with True cons show ?thesis by (simp add: Let_def fuse_def split: prod.splits)
  next
    case False
    with "2.IH"(2) cons show ?thesis by simp
  qed
qed

text \<open>
  Claim C6 (turn count), as amended: the Segmenter returns a section list for every input,
  and when no tool-action line arrives while a user prompt is the open segment, the
  output of either merger holds exactly as many \<open>user-prompt\<close> sections as the input has
  user-turn-opener lines outside code fences whose payload matches no ignore pattern.
\<close>

theorem C6_turn_count:
  assumes "\<not> actionAfterPrompt uid False False (splitLines t)"
  shows "\<exists>secs. parseContent t uid = Some secs
           \<and> mergedUserPrompts (mergeSections secs) = openersOutsideFences uid False (splitLines t)
           \<and> mergedUserPrompts (mergeSections_legacy secs) = openersOutsideFences uid False (splitLines t)"
  using parseContent_prompts [OF assms]
  by (auto simp: mergeSections_prompts mergeSections_legacy_prompts)

theorem C6_turn_count_witness:
  "\<not> actionAfterPrompt ''alice'' False False
       (splitLines ''alice: hi\<newline>GitHub Copilot: hello\<newline>Read [](file:///home/u/p/proj/src/a.js)\<newline>Done.\<newline>alice: thanks'')
   \<and> (\<exists>secs. parseContent
                ''alice: hi\<newline>GitHub Copilot: hello\<newline>Read [](file:///home/u/p/proj/src/a.js)\<newline>Done.\<newline>alice: thanks''
                ''alice'' = Some secs
          \<and> mergedUserPrompts (mergeSections secs) = 2
          \<and> mergedUserPrompts (mergeSections_legacy secs) = 2)"
proof -
  have hyp: "\<not> actionAfterPrompt ''alice'' False False
       (splitLines ''alice: hi\<newline>GitHub Copilot: hello\<newline>Read [](file:///home/u/p/proj/src/a.js)\<newline>Done.\<newline>alice: thanks'')"
    by code_simp
  have k: "openersOutsideFences ''alice'' False
       (splitLines ''alice: hi\<newline>GitHub Copilot: hello\<newline>Read [](file:///home/u/p/proj/src/a.js)\<newline>Done.\<newline>alice: thanks'') = 2"
    by code_simp
  show ?thesis
    using C6_turn_count [OF hyp] hyp unfolding k by blast
qed

text \<open>
  Claim C6 as stated fails on an opener line quoted inside a code fence: the input has two
  opener lines with a payload that is not ignored, and the merged output one
  \<open>user-prompt\<close> section.
\<close>

theorem C6_counterexample:
  "countOpeners ''alice'' ''alice: hi\<newline>GitHub Copilot: ok\<newline>```\<newline>alice: quoted\<newline>```'' = 2
   \<and> map_option (mergedUserPrompts \<circ> mergeSections)
         (parseContent ''alice: hi\<newline>GitHub Copilot: ok\<newline>```\<newline>alice: quoted\<newline>```'' ''alice'')
       = Some 1"
  by code_simp

text \<open>
  Outside the amended claim: a tool-action line right after a user prompt replaces the open
  prompt, which is emitted nowhere.
\<close>

lemma prompt_overwritten_by_action:
  "parseContent ''alice: hi\<newline>Read [](file:///home/u/p/proj/src/a.js)\<newline>GitHub Copilot: ok'' ''alice''
   = Some [\<lparr>stype = AgentResponse, content = [''ok''], actions = None, raw = ''ok''\<rparr>]"
  by code_simp

section \<open>The idempotence gate and forced reprocessing\<close>

text \<open>
  Claim C2 (idempotence gate): for every content that contains the processed marker,
  \<open>processContent\<close> with \<open>force = false\<close> returns the content itself, whatever the host,
  the \<open>silent\<close> flag and the input file name are; nothing of the pipeline runs.
\<close>

theorem C2_idempotence_gate:
  "isAlreadyProcessed doc \<Longrightarrow> processContent h doc False silent inputFile = Returned (Some doc)"
  by (simp add: processContent_def)

theorem C2_idempotence_gate_witness:
  "isAlreadyProcessed ''---\<newline>type: chat-session\<newline>---\<newline><!-- formatted-chat-session -->\<newline>\<newline>hello''
   \<and> processContent
        \<lparr>decodeURIComponent = Some, basename = id, toISOString = ''2025-01-01T00:00:00.000Z'',
           formatSection = (\<lambda>m r. [])\<rparr>
        ''---\<newline>type: chat-session\<newline>---\<newline><!-- formatted-chat-session -->\<newline>\<newline>hello''
        False True ''stdin''
     = Returned (Some ''---\<newline>type: chat-session\<newline>---\<newline><!-- formatted-chat-session -->\<newline>\<newline>hello'')"
proof -
  have marked: "isAlreadyProcessed ''---\<newline>type: chat-session\<newline>---\<newline><!-- formatted-chat-session -->\<newline>\<newline>hello''"
    by code_simp
  show ?thesis
    using C2_idempotence_gate [OF marked] marked by simp
qed

text \<open>
  Claim C9 (forced reprocessing strips the leading frontmatter). The document below
  begins with the frontmatter \<open>generateFrontmatter\<close> writes, whose closing \<open>---\<close> line is
  followed at once by the processed marker. With \<open>force = true\<close> the content handed on is
  the document itself, frontmatter included: the pattern asks for an empty line right after
  the closing \<open>---\<close>. The user identifier is then read off the frontmatter line \<open>type:\<close>.
\<close>

theorem C9_frontmatter_not_stripped:
  "generateFrontmatter (Some ''/home/u/p/proj'') ''session.md'' ''2025-01-01T00:00:00.000Z''
     = ''---\<newline>type: chat-session\<newline>projectRoot: /home/u/p/proj\<newline>sourceFile: session.md\<newline>processedDate: 2025-01-01T00:00:00.000Z\<newline>---\<newline><!-- formatted-chat-session -->\<newline>\<newline>''
   \<and> isAlreadyProcessed
        ''---\<newline>type: chat-session\<newline>projectRoot: /home/u/p/proj\<newline>sourceFile: session.md\<newline>processedDate: 2025-01-01T00:00:00.000Z\<newline>---\<newline><!-- formatted-chat-session -->\<newline>\<newline>alice: hi\<newline>GitHub Copilot: hello''
   \<and> coreInput
        ''---\<newline>type: chat-session\<newline>projectRoot: /home/u/p/proj\<newline>sourceFile: session.md\<newline>processedDate: 2025-01-01T00:00:00.000Z\<newline>---\<newline><!-- formatted-chat-session -->\<newline>\<newline>alice: hi\<newline>GitHub Copilot: hello''
        True
     = ''---\<newline>type: chat-session\<newline>projectRoot: /home/u/p/proj\<newline>sourceFile: session.md\<newline>processedDate: 2025-01-01T00:00:00.000Z\<newline>---\<newline><!-- formatted-chat-session -->\<newline>\<newline>alice: hi\<newline>GitHub Copilot: hello''
   \<and> extractUserIdentifier
        (coreInput
           ''---\<newline>type: chat-session\<newline>projectRoot: /home/u/p/proj\<newline>sourceFile: session.md\<newline>processedDate: 2025-01-01T00:00:00.000Z\<newline>---\<newline><!-- formatted-chat-session -->\<newline>\<newline>alice: hi\<newline>GitHub Copilot: hello''
           True)
     = Some ''type''"
  by code_simp

text \<open>
  The pattern does strip a frontmatter block whose closing \<open>---\<close> line is followed by an
  empty line.
\<close>

lemma frontmatter_stripped_before_blank_line:
  "coreInput ''---\<newline>a: b\<newline>---\<newline>\<newline><!-- formatted-chat-session -->\<newline>x'' True
   = ''<!-- formatted-chat-session -->\<newline>x''"
  by code_simp

section \<open>The legacy merger and the scenarios of the specification\<close>

lemma foldl_fuseStep_in_order:
  "foldl fuseStep acc items
     = (fst acc @ bodyInOrder (length (snd acc)) items,
        snd acc @ filter (\<lambda>s. stype s = AgentAction) items)"
proof (induction items arbitrary: acc)
  case Nil
  then show ?case by simp
next
  case (Cons s items)
  show ?case
    unfolding foldl_Cons Cons.IH by (simp add: fuseStep_def)
qed

text \<open>
  The legacy merger keeps the order of the segments of a turn in the fused body, and its
  actions are the \<open>ToolAction\<close> segments of the turn in their order.
\<close>

lemma fuse_in_order:
  "fuse items = Fused (bodyInOrder 0 items) (filter (\<lambda>s. stype s = AgentAction) items)"
  by (simp add: fuse_def foldl_fuseStep_in_order)

text \<open>The legacy merger passes the segments before the first user prompt through as they came.\<close>

lemma mergeSections_legacy_orphans:
  "\<forall>s \<in> set orphans. stype s \<noteq> UserPrompt \<Longrightarrow>
   mergeSections_legacy (orphans @ rest) = map Plain orphans @ mergeSections_legacy rest"
  by (induction orphans) simp_all

text \<open>
  Scenario A of the specification: one user turn, and one fused response whose body is
  \<open>hello\<close>, the placeholder of action 0, \<open>Done.\<close>.
\<close>

lemma scenario_A:
  "map_option mergeSections
     (parseContent ''alice: hi\<newline>GitHub Copilot: hello\<newline>Read [](file:///home/u/p/proj/src/a.js)\<newline>Done.'' ''alice'')
   = Some
      [Plain \<lparr>stype = UserPrompt, content = [''hi''], actions = None, raw = ''hi''\<rparr>,
       Fused [''hello'', placeholder 0, ''Done.'']
         [\<lparr>stype = AgentAction, content = [''Read [](file:///home/u/p/proj/src/a.js)''],
            actions = Some [''Read [](file:///home/u/p/proj/src/a.js)''],
            raw = ''Read [](file:///home/u/p/proj/src/a.js)''\<rparr>]]"
  by code_simp

text \<open>Scenario B: a noise line produces no segment.\<close>

lemma scenario_B: "parseLine uid st ''Continue to iterate?'' = Some st"
  by (simp add: parseLine_def some_def NOISE_PATTERNS_def trim_def trimEnd_def trimStart_def
      isWhiteSpace_def)

text \<open>
  Scenario D: two trailing spaces go before a blank line and stay before a line of text.
\<close>

lemma scenario_D:
  "removeTrailingSpaces ''foo  \<newline>\<newline>bar'' = ''foo\<newline>\<newline>bar''
   \<and> removeTrailingSpaces ''foo  \<newline>bar'' = ''foo  \<newline>bar''"
  by code_simp

text \<open>Heading cap: a level-6 heading stays at level 6, a level-1 heading moves to level 2.\<close>

lemma heading_cap:
  "shiftHeadingLevels ''###### deep\<newline># top'' = ''###### deep\<newline>## top''"
  by code_simp

section \<open>Blank-line compaction on runs of line feeds\<close>

lemma clean_Nil: "cleanExcessiveLineBreaks [] = []"
  by (simp add: cleanExcessiveLineBreaks.simps [of "[]"])

lemma clean_other:
  "c \<noteq> CHR 0x0A \<Longrightarrow> cleanExcessiveLineBreaks (c # cs) = c # cleanExcessiveLineBreaks cs"
  by (simp add: cleanExcessiveLineBreaks.simps [of "c # cs"])

lemma takeWhile_LF_run:
  "\<not> startsWith b [CHR 0x0A] \<Longrightarrow>
   takeWhile (\<lambda>c. c = CHR 0x0A) (replicate n (CHR 0x0A) @ b) = replicate n (CHR 0x0A)"
  by (induction n) (cases b; simp add: startsWith_def)+

lemma clean_run:
  assumes "\<not> startsWith b [CHR 0x0A]"
  shows "cleanExcessiveLineBreaks (replicate n (CHR 0x0A) @ b)
         = replicate (compacted n) (CHR 0x0A) @ cleanExcessiveLineBreaks b"
proof (cases "3 \<le> n")
  case True
  then show ?thesis
    using takeWhile_LF_run [OF assms, of n]
    by (simp add: cleanExcessiveLineBreaks.simps [of "replicate n (CHR 0x0A) @ b"] compacted_def
        numeral_2_eq_2)
next
  case False
  have one: "cleanExcessiveLineBreaks (CHR 0x0A # b) = CHR 0x0A # cleanExcessiveLineBreaks b"
    using takeWhile_LF_run [OF assms, of 1]
    by (simp add: cleanExcessiveLineBreaks.simps [of "CHR 0x0A # b"])
  have two: "cleanExcessiveLineBreaks (CHR 0x0A # CHR 0x0A # b)
        = CHR 0x0A # cleanExcessiveLineBreaks (CHR 0x0A # b)"
    using takeWhile_LF_run [OF assms, of 2]
    by (simp add: cleanExcessiveLineBreaks.simps [of "CHR 0x0A # CHR 0x0A # b"] numeral_2_eq_2)
  from False have "n = 0 \<or> n = 1 \<or> n = 2" by arith
  then show ?thesis
    using one two by (auto simp: compacted_def numeral_2_eq_2)
qed

text \<open>
  Text is compacted piece by piece wherever no run of line feeds crosses the cut.
\<close>

lemma clean_append:
  "a = [] \<or> last a \<noteq> CHR 0x0A \<Longrightarrow>
   cleanExcessiveLineBreaks (a @ b) = cleanExcessiveLineBreaks a @ cleanExcessiveLineBreaks b"
proof (induction "length a" arbitrary: a rule: less_induct)
  case less
  show ?case
  proof (cases "a = []")
    case True
    then show ?thesis by (simp add: clean_Nil)
  next
    case False
    define n where "n = length (takeWhile (\<lambda>c. c = CHR 0x0A) a)"
    define rest where "rest = dropWhile (\<lambda>c. c = CHR 0x0A) a"
    have "takeWhile (\<lambda>c. c = CHR 0x0A) a = replicate n (CHR 0x0A)"
      unfolding n_def by (rule replicate_length_same [symmetric]) (auto dest: set_takeWhileD)
    then have a: "a = replicate n (CHR 0x0A) @ rest"
      unfolding rest_def using takeWhile_dropWhile_id [of "\<lambda>c. c = CHR 0x0A" a] by simp
    have "rest \<noteq> []"
    proof
      assume "rest = []"
      then have "\<forall>x \<in> set a. x = CHR 0x0A" by (simp add: rest_def)
      moreover have "last a \<in> set a" using False by simp
      ultimately show False using less.prems False by blast
    qed
    then obtain r rs where rest: "rest = r # rs" by (cases rest) auto
    have r: "r \<noteq> CHR 0x0A"
      using hd_dropWhile [of "\<lambda>c. c = CHR 0x0A" a] rest unfolding rest_def by auto
    have "last a = last (r # rs)" using a rest by simp
    then have rs: "rs = [] \<or> last rs \<noteq> CHR 0x0A"
      using less.prems False by (cases "rs = []") auto
    have "length rs < length a" using a rest by simp
    then have ih: "cleanExcessiveLineBreaks (rs @ b)
        = cleanExcessiveLineBreaks rs @ cleanExcessiveLineBreaks b"
      using less.hyps rs by blast
    have h1: "\<not> startsWith (r # rs @ b) [CHR 0x0A]" using r by (simp add: startsWith_def)
    have h2: "\<not> startsWith (r # rs) [CHR 0x0A]" using r by (simp add: startsWith_def)
    have "cleanExcessiveLineBreaks (replicate n (CHR 0x0A) @ (r # rs @ b))
        = replicate (compacted n) (CHR 0x0A) @ r # cleanExcessiveLineBreaks (rs @ b)"
      using clean_run [OF h1, of n] r by (simp add: clean_other)
    moreover have "cleanExcessiveLineBreaks (replicate n (CHR 0x0A) @ (r # rs))
        = replicate (compacted n) (CHR 0x0A) @ r # cleanExcessiveLineBreaks rs"
      using clean_run [OF h2, of n] r by (simp add: clean_other)
    ultimately show ?thesis
      unfolding a rest using ih by simp
  qed
qed

text \<open>
  What the compaction does: a run of \<open>n\<close> line feeds between two pieces of text, the
  first not ending and the second not beginning with a line feed, becomes a run of two
  when \<open>n\<close> is three or more and stays as it is otherwise, and the pieces are compacted
  on their own.
\<close>

lemma clean_between:
  assumes "a = [] \<or> last a \<noteq> CHR 0x0A" and "\<not> startsWith b [CHR 0x0A]"
  shows "cleanExcessiveLineBreaks (a @ replicate n (CHR 0x0A) @ b)
         = cleanExcessiveLineBreaks a @ replicate (compacted n) (CHR 0x0A) @ cleanExcessiveLineBreaks b"
  using clean_append [OF assms(1)] clean_run [OF assms(2)] by simp

section \<open>The string tests as predicates on lists\<close>

text \<open>\<open>startsWith\<close> and \<open>includes_str\<close> are the prefix and the substring test.\<close>

lemma startsWith_iff: "startsWith s p \<longleftrightarrow> (\<exists>b. s = p @ b)"
proof
  assume "startsWith s p"
  then have "s = p @ drop (length p) s"
    unfolding startsWith_def by (metis append_take_drop_id)
  then show "\<exists>b. s = p @ b" ..
next
  assume "\<exists>b. s = p @ b"
  then show "startsWith s p" by (auto simp: startsWith_def)
qed

lemma includes_str_iff: "includes_str s p \<longleftrightarrow> (\<exists>a b. s = a @ p @ b)"
proof (induction s)
  case Nil
  then show ?case by simp
next
  case (Cons c cs)
  show ?case
  proof
    assume "includes_str (c # cs) p"
    then consider "startsWith (c # cs) p" | "includes_str cs p" by auto
    then show "\<exists>a b. c # cs = a @ p @ b"
    proof cases
      case 1
      then obtain b where "c # cs = p @ b" using startsWith_iff by blast
      then have "c # cs = [] @ p @ b" by simp
      then show ?thesis by blast
    next
      case 2
      then obtain a b where "cs = a @ p @ b" using Cons.IH by blast
      then have "c # cs = (c # a) @ p @ b" by simp
      then show ?thesis by blast
    qed
  next
    assume "\<exists>a b. c # cs = a @ p @ b"
    then obtain a b where ab: "c # cs = a @ p @ b" by blast
    show "includes_str (c # cs) p"
    proof (cases a)
      case Nil
      with ab have "startsWith (c # cs) p" using startsWith_iff by auto
      then show ?thesis by simp
    next
      case (Cons x xs)
      with ab have "cs = xs @ p @ b" by simp
      then have "includes_str cs p" using Cons.IH by blast
      then show ?thesis by simp
    qed
  qed
qed

end
